theory Spec2Isabelle
  imports Main "HOL-Library.Word" "HOL-Library.Sublist"
begin

unbundle bit_operations_syntax

section \<open>The virtual file system of xenia/vfs/virtual_file_system.cc\<close>

text \<open>
  Conventions of the embedding.
  \<^item> Guest paths are byte strings (\<open>string\<close>).
  \<^item> A call that does not return normally has the value \<open>None\<close>: the loop of
    \<open>ResolveSymbolicLink\<close> has no cycle guard and may run forever, and
    \<open>std::string::substr\<close> throws \<open>std::out_of_range\<close> (which nothing in this file
    catches) when its position lies beyond the end of the string.
  \<^item> The world outside the registry (the entry trees of the devices, the host file
    system) is a state of an arbitrary type \<open>'s\<close> that is passed through the calls;
    entries are handles of an arbitrary type \<open>'e\<close>, open files handles of type \<open>'f\<close>.
    A null pointer is \<open>None\<close>.
  \<^item> Functions, constants and classes that the file uses and that are declared
    elsewhere in the repository are parameters of the model.
\<close>

subsection \<open>String helpers of xe::utf8\<close>

text \<open>
  The helpers of \<open>xenia/base/utf8\<close> whose behaviour the spec leaves open are fields of
  one record of parameters.
\<close>

record utf8 =
  canonicalize_guest_path :: "string \<Rightarrow> string"
  starts_with_case :: "string \<Rightarrow> string \<Rightarrow> bool"
  split_path :: "string \<Rightarrow> string list"
  join_guest_paths :: "string \<Rightarrow> string \<Rightarrow> string"
  find_base_guest_path :: "string \<Rightarrow> string"
  find_name_from_guest_path :: "string \<Rightarrow> string"

text \<open>
  Modelled from the spec: \<open>xe::utf8::starts_with\<close> is declared in xenia/base/utf8.h,
  which is not part of the sources at hand. The spec calls the device lookup a
  ``case-sensitive substring-prefix test'' and the mount path a ``literal prefix'' of
  the path.
\<close>

definition starts_with :: "string \<Rightarrow> string \<Rightarrow> bool" where
  "starts_with haystack needle \<longleftrightarrow> prefix needle haystack"

text \<open>
  Modelled from the spec: case-insensitive equality of two strings, the comparison
  that the spec words attribute to \<open>UnregisterDevice\<close> (``case-insensitively equals'').
  Letters of the ASCII range are folded to lower case.
\<close>

definition lower_ascii :: "char \<Rightarrow> char" where
  "lower_ascii c =
     (let n = (of_char c :: nat) in if 65 \<le> n \<and> n \<le> 90 then char_of (n + 32) else c)"

definition equal_case :: "string \<Rightarrow> string \<Rightarrow> bool" where
  "equal_case a b \<longleftrightarrow> map lower_ascii a = map lower_ascii b"

text \<open>
  \<open>std::string::substr(pos)\<close>: the rest of the string from \<open>pos\<close>, and an exception when
  \<open>pos\<close> exceeds the size.
\<close>

definition substr :: "string \<Rightarrow> nat \<Rightarrow> string option" where
  "substr str pos = (if pos > length str then None else Some (drop pos str))"

subsection \<open>Devices and the registry\<close>

text \<open>
  A device as this file uses it: its mount path and its own \<open>ResolvePath\<close>, which
  reads the world state.
\<close>

record ('s, 'e) device =
  mount_path :: string
  dev_ResolvePath :: "'s \<Rightarrow> string \<Rightarrow> 'e option"

text \<open>
  The members \<open>devices_\<close> (a sequence, appended to by \<open>RegisterDevice\<close>) and
  \<open>symlinks_\<close>. The symbolic links are kept as the sequence in which the container
  is iterated from \<open>cbegin()\<close> to \<open>cend()\<close>; \<open>std::find_if\<close> returns the first match of
  that sequence.
\<close>

record ('s, 'e) vfs =
  devices :: "('s, 'e) device list"
  symlinks :: "(string \<times> string) list"

definition RegisterDevice :: "('s, 'e) vfs \<Rightarrow> ('s, 'e) device \<Rightarrow> bool \<times> ('s, 'e) vfs" where
  "RegisterDevice V device = (True, V\<lparr>devices := devices V @ [device]\<rparr>)"

text \<open>
  The loop of \<open>UnregisterDevice\<close> over the devices: the mount path is compared with
  \<open>==\<close> between a \<open>std::string\<close> and a \<open>std::string_view\<close>.
\<close>

fun UnregisterDevice_loop ::
  "('s, 'e) device list \<Rightarrow> string \<Rightarrow> bool \<times> ('s, 'e) device list" where
  "UnregisterDevice_loop [] path = (False, [])"
| "UnregisterDevice_loop (d # ds) path =
     (if mount_path d = path then (True, ds)
      else (case UnregisterDevice_loop ds path of (found, ds') \<Rightarrow> (found, d # ds')))"

definition UnregisterDevice :: "('s, 'e) vfs \<Rightarrow> string \<Rightarrow> bool \<times> ('s, 'e) vfs" where
  "UnregisterDevice V path =
     (case UnregisterDevice_loop (devices V) path of
        (found, ds) \<Rightarrow> (found, V\<lparr>devices := ds\<rparr>))"

subsection \<open>Symbolic links\<close>

partial_function (option) ResolveSymbolicLink_loop ::
  "(string \<Rightarrow> string \<Rightarrow> bool) \<Rightarrow> (string \<times> string) list \<Rightarrow> string \<Rightarrow> bool
     \<Rightarrow> (bool \<times> string) option" where
  "ResolveSymbolicLink_loop sw links result was_resolved =
     (case find (\<lambda>s. sw result (fst s)) links of
        None \<Rightarrow> Some (was_resolved, result)
      | Some it \<Rightarrow>
          (case substr result (length (fst it)) of
             None \<Rightarrow> None
           | Some relative_path \<Rightarrow>
               ResolveSymbolicLink_loop sw links (snd it @ relative_path) True))"

declare ResolveSymbolicLink_loop.simps [code]

definition ResolveSymbolicLink ::
  "utf8 \<Rightarrow> ('s, 'e) vfs \<Rightarrow> string \<Rightarrow> (bool \<times> string) option" where
  "ResolveSymbolicLink U V path =
     ResolveSymbolicLink_loop (starts_with_case U) (symlinks V) path False"

subsection \<open>Path resolution\<close>

definition ResolvePath :: "utf8 \<Rightarrow> ('s, 'e) vfs \<Rightarrow> 's \<Rightarrow> string \<Rightarrow> 'e option option" where
  "ResolvePath U V s path =
     (let normalized_path = canonicalize_guest_path U path in
      case ResolveSymbolicLink U V normalized_path of
        None \<Rightarrow> None
      | Some (was_resolved, resolved_path) \<Rightarrow>
          (let normalized_path = (if was_resolved then resolved_path else normalized_path) in
           case find (\<lambda>d. starts_with normalized_path (mount_path d)) (devices V) of
             None \<Rightarrow> Some None
           | Some device \<Rightarrow>
               (case substr normalized_path (length (mount_path device)) of
                  None \<Rightarrow> None
                | Some relative_path \<Rightarrow> Some (dev_ResolvePath device s relative_path))))"

subsection \<open>Constants, enumerations and the Entry interface\<close>

text \<open>
  The values of the access flags, the attribute bits and the status codes, and the
  macro \<open>XFAILED\<close>, are declared in headers outside the sources at hand; they are
  fields of a record of parameters and no theorem depends on their values unless it
  says so.
\<close>

type_synonym X_STATUS = "32 word"

record constants =
  kGenericRead :: "32 word"
  kGenericWrite :: "32 word"
  kGenericAll :: "32 word"
  kFileReadData :: "32 word"
  kFileWriteData :: "32 word"
  kFileAppendData :: "32 word"
  kFileAttributeDirectory :: "32 word"
  kFileAttributeNormal :: "32 word"
  X_STATUS_SUCCESS :: X_STATUS
  X_STATUS_NO_SUCH_FILE :: X_STATUS
  X_STATUS_OBJECT_NAME_COLLISION :: X_STATUS
  X_STATUS_ACCESS_DENIED :: X_STATUS
  X_STATUS_FILE_IS_A_DIRECTORY :: X_STATUS
  XFAILED :: "X_STATUS \<Rightarrow> bool"

datatype FileDisposition =
  kSuperscede | kOpen | kCreate | kOpenIf | kOverwrite | kOverwriteIf

datatype FileAction =
  kSuperseded | kOpened | kCreated | kOverwritten | kExists | kDoesNotExist

text \<open>
  The member functions of \<open>Entry\<close> that this file calls, each reading or changing the
  world state. \<open>Delete\<close> and \<open>CreateEntry\<close> return their result and the new state;
  \<open>Open\<close> returns the status, what it stored through \<open>out_file\<close> (\<open>None\<close> when it
  stored nothing) and the new state. \<open>host_path\<close> is the
  \<open>dynamic_cast\<close> to \<open>HostPathEntry\<close> followed by \<open>host_path()\<close>: \<open>None\<close> when the
  entry is of another class. \<open>fs_join\<close> is \<open>operator/\<close> of \<open>std::filesystem::path\<close>
  and \<open>fs_exists\<close> is \<open>std::filesystem::exists\<close>.
\<close>

record ('s, 'e, 'f) entry_ops =
  entry_ResolvePath :: "'s \<Rightarrow> 'e \<Rightarrow> string \<Rightarrow> 'e option"
  GetChild :: "'s \<Rightarrow> 'e \<Rightarrow> string \<Rightarrow> 'e option"
  attributes :: "'s \<Rightarrow> 'e \<Rightarrow> 32 word"
  is_read_only :: "'s \<Rightarrow> 'e \<Rightarrow> bool"
  name :: "'s \<Rightarrow> 'e \<Rightarrow> string"
  Delete :: "'s \<Rightarrow> 'e \<Rightarrow> bool \<times> 's"
  CreateEntry :: "'s \<Rightarrow> 'e \<Rightarrow> string \<Rightarrow> 32 word \<Rightarrow> 'e option \<times> 's"
  Open :: "'s \<Rightarrow> 'e \<Rightarrow> 32 word \<Rightarrow> (X_STATUS \<times> 'f option) \<times> 's"
  host_path :: "'e \<Rightarrow> string option"
  fs_join :: "string \<Rightarrow> string \<Rightarrow> string"
  fs_exists :: "'s \<Rightarrow> string \<Rightarrow> bool"

subsection \<open>CreatePath\<close>

text \<open>
  The \<open>for\<close> loop of \<open>CreatePath\<close>, from index \<open>i\<close> on, with the current
  \<open>partial_path\<close> and \<open>parent_entry\<close>; when the loop is left the last part is created.
  The vector \<open>path_parts\<close> is not empty here, so \<open>path_parts.size() - 1\<close> does not
  wrap.
\<close>

function CreatePath_loop ::
  "utf8 \<Rightarrow> constants \<Rightarrow> ('s, 'e, 'f) entry_ops \<Rightarrow> ('s, 'e) vfs \<Rightarrow> string list \<Rightarrow> 32 word
     \<Rightarrow> nat \<Rightarrow> string \<Rightarrow> 'e \<Rightarrow> 's \<Rightarrow> ('e option \<times> 's) option" where
  "CreatePath_loop U K B V path_parts attrs i partial_path parent_entry s =
     (if i < length path_parts - 1 then
        (let partial_path = join_guest_paths U partial_path (path_parts ! i) in
         case ResolvePath U V s partial_path of
           None \<Rightarrow> None
         | Some child_entry \<Rightarrow>
             (case (case child_entry of
                      None \<Rightarrow> CreateEntry B s parent_entry (path_parts ! i)
                                (kFileAttributeDirectory K)
                    | Some c \<Rightarrow> (Some c, s)) of
                (None, s') \<Rightarrow> Some (None, s')
              | (Some child_entry, s') \<Rightarrow>
                  CreatePath_loop U K B V path_parts attrs (i + 1) partial_path
                    child_entry s'))
      else Some (CreateEntry B s parent_entry (path_parts ! (length path_parts - 1)) attrs))"
  by pat_completeness auto
termination
  by (relation "measure (\<lambda>(U, K, B, V, path_parts, attrs, i, rest). length path_parts - 1 - i)")
    auto

declare CreatePath_loop.simps [simp del]

definition CreatePath ::
  "utf8 \<Rightarrow> constants \<Rightarrow> ('s, 'e, 'f) entry_ops \<Rightarrow> ('s, 'e) vfs \<Rightarrow> 's \<Rightarrow> string \<Rightarrow> 32 word
     \<Rightarrow> ('e option \<times> 's) option" where
  "CreatePath U K B V s path attrs =
     (let path_parts = split_path U path in
      if path_parts = [] then Some (None, s)
      else
        (let partial_path = path_parts ! 0 in
         case ResolvePath U V s partial_path of
           None \<Rightarrow> None
         | Some None \<Rightarrow> Some (None, s)
         | Some (Some partial_entry) \<Rightarrow>
             CreatePath_loop U K B V path_parts attrs 1 partial_path partial_entry s))"

subsection \<open>OpenFile\<close>

text \<open>
  The result of \<open>OpenFile\<close>: the returned status, the value of \<open>*out_action\<close> after the
  call (the caller's value when the call did not store one), what was stored through
  \<open>out_file\<close>, and the world state.
\<close>

type_synonym ('s, 'f) open_result = "X_STATUS \<times> FileAction \<times> 'f option \<times> 's"

text \<open>``Cleanup access.''\<close>

definition cleanup_access :: "constants \<Rightarrow> 32 word \<Rightarrow> 32 word" where
  "cleanup_access K desired_access =
     (let desired_access =
            (if desired_access AND kGenericRead K \<noteq> 0
             then desired_access OR kFileReadData K else desired_access);
          desired_access =
            (if desired_access AND kGenericWrite K \<noteq> 0
             then desired_access OR kFileWriteData K else desired_access);
          desired_access =
            (if desired_access AND kGenericAll K \<noteq> 0
             then desired_access OR (kFileReadData K OR kFileWriteData K) else desired_access)
      in desired_access)"

text \<open>
  ``Lookup host device/parent path.'' The result is \<open>Some None\<close> when the parent does
  not resolve (the call then fails), and otherwise the pair of \<open>parent_entry\<close> and
  \<open>entry\<close>.
\<close>

definition OpenFile_lookup ::
  "utf8 \<Rightarrow> ('s, 'e, 'f) entry_ops \<Rightarrow> ('s, 'e) vfs \<Rightarrow> 's \<Rightarrow> 'e option \<Rightarrow> string
     \<Rightarrow> ('e option \<times> 'e option) option option" where
  "OpenFile_lookup U B V s root_entry path =
     (let base_path = find_base_guest_path U path in
      if base_path \<noteq> [] then
        (case (case root_entry of
                 None \<Rightarrow> ResolvePath U V s base_path
               | Some r \<Rightarrow> Some (entry_ResolvePath B s r base_path)) of
           None \<Rightarrow> None
         | Some None \<Rightarrow> Some None
         | Some (Some parent_entry) \<Rightarrow>
             (let file_name = find_name_from_guest_path U path in
              Some (Some (Some parent_entry, GetChild B s parent_entry file_name))))
      else
        (case (case root_entry of
                 None \<Rightarrow> ResolvePath U V s path
               | Some r \<Rightarrow> Some (GetChild B s r path)) of
           None \<Rightarrow> None
         | Some entry \<Rightarrow> Some (Some (None, entry))))"

text \<open>
  ``If the entry does not exist on the host then remove the cached entry'': the entry
  that remains and the state.
\<close>

definition OpenFile_uncache ::
  "('s, 'e, 'f) entry_ops \<Rightarrow> 's \<Rightarrow> 'e option \<Rightarrow> 'e \<Rightarrow> 'e option \<times> 's" where
  "OpenFile_uncache B s parent_entry entry =
     (case parent_entry of
        None \<Rightarrow> (Some entry, s)
      | Some p \<Rightarrow>
          (case host_path B p of
             None \<Rightarrow> (Some entry, s)
           | Some host_Path \<Rightarrow>
               (let file_path = fs_join B host_Path (name B s entry) in
                if \<not> fs_exists B s file_path then (None, snd (Delete B s entry))
                else (Some entry, s))))"

text \<open>``Open.''\<close>

definition OpenFile_open ::
  "constants \<Rightarrow> ('s, 'e, 'f) entry_ops \<Rightarrow> 's \<Rightarrow> 'e \<Rightarrow> 32 word \<Rightarrow> FileAction
     \<Rightarrow> ('s, 'f) open_result" where
  "OpenFile_open K B s entry desired_access action =
     (case Open B s entry desired_access of
        ((result, file), s') \<Rightarrow>
          (result, if XFAILED K result then kDoesNotExist else action, file, s'))"

text \<open>``Create if needed (either new or as a replacement)'', then open.\<close>

definition OpenFile_create ::
  "utf8 \<Rightarrow> constants \<Rightarrow> ('s, 'e, 'f) entry_ops \<Rightarrow> ('s, 'e) vfs \<Rightarrow> 's \<Rightarrow> string \<Rightarrow> bool
     \<Rightarrow> 32 word \<Rightarrow> FileAction \<Rightarrow> ('s, 'f) open_result option" where
  "OpenFile_create U K B V s path is_directory desired_access action =
     (case CreatePath U K B V s path
             (if \<not> is_directory then kFileAttributeNormal K else kFileAttributeDirectory K) of
        None \<Rightarrow> None
      | Some (None, s') \<Rightarrow> Some (X_STATUS_ACCESS_DENIED K, action, None, s')
      | Some (Some entry, s') \<Rightarrow> Some (OpenFile_open K B s' entry desired_access action))"

text \<open>
  ``Verify permissions'': the access after the check. \<open>assert_always()\<close> is taken to
  expand to nothing, as in a release build.
\<close>

definition OpenFile_permissions ::
  "constants \<Rightarrow> ('s, 'e, 'f) entry_ops \<Rightarrow> 's \<Rightarrow> 'e option \<Rightarrow> 'e option \<Rightarrow> 32 word \<Rightarrow> 32 word" where
  "OpenFile_permissions K B s parent_entry entry desired_access =
     (let wants_write = (desired_access AND kFileWriteData K \<noteq> 0
                           \<or> desired_access AND kFileAppendData K \<noteq> 0)
      in if wants_write \<and>
              ((case parent_entry of None \<Rightarrow> False | Some p \<Rightarrow> is_read_only B s p)
               \<or> (case entry of None \<Rightarrow> False | Some e \<Rightarrow> is_read_only B s e))
         then kGenericRead K OR kFileReadData K
         else desired_access)"

text \<open>
  The part of \<open>OpenFile\<close> from the first \<open>switch\<close> on, with \<open>parent_entry\<close> and
  \<open>entry\<close> as the lookup left them; \<open>a0\<close> is the caller's value of \<open>*out_action\<close>.
\<close>

definition OpenFile_dispose ::
  "utf8 \<Rightarrow> constants \<Rightarrow> ('s, 'e, 'f) entry_ops \<Rightarrow> ('s, 'e) vfs \<Rightarrow> 's \<Rightarrow> string
     \<Rightarrow> FileDisposition \<Rightarrow> 32 word \<Rightarrow> bool \<Rightarrow> 'e option \<Rightarrow> 'e option \<Rightarrow> FileAction
     \<Rightarrow> ('s, 'f) open_result option" where
  "OpenFile_dispose U K B V s path creation_disposition desired_access is_directory
       parent_entry entry a0 =
     (if (creation_disposition = kOpen \<or> creation_disposition = kOverwrite) \<and> entry = None
      then Some (X_STATUS_NO_SUCH_FILE K, kDoesNotExist, None, s)
      else if creation_disposition = kCreate \<and> entry \<noteq> None
      then Some (X_STATUS_OBJECT_NAME_COLLISION K, kExists, None, s)
      else
        (let desired_access = OpenFile_permissions K B s parent_entry entry desired_access
         in case entry of
              None \<Rightarrow> OpenFile_create U K B V s path is_directory desired_access kCreated
            | Some e \<Rightarrow>
                (case creation_disposition of
                   kCreate \<Rightarrow> Some (X_STATUS_ACCESS_DENIED K, a0, None, s)
                 | kSuperscede \<Rightarrow>
                     (case Delete B s e of
                        (False, s') \<Rightarrow> Some (X_STATUS_ACCESS_DENIED K, a0, None, s')
                      | (True, s') \<Rightarrow>
                          OpenFile_create U K B V s' path is_directory desired_access
                            kSuperseded)
                 | kOpen \<Rightarrow> Some (OpenFile_open K B s e desired_access kOpened)
                 | kOpenIf \<Rightarrow> Some (OpenFile_open K B s e desired_access kOpened)
                 | kOverwrite \<Rightarrow>
                     (case Delete B s e of
                        (False, s') \<Rightarrow> Some (X_STATUS_ACCESS_DENIED K, a0, None, s')
                      | (True, s') \<Rightarrow>
                          OpenFile_create U K B V s' path is_directory desired_access
                            kOverwritten)
                 | kOverwriteIf \<Rightarrow>
                     (case Delete B s e of
                        (False, s') \<Rightarrow> Some (X_STATUS_ACCESS_DENIED K, a0, None, s')
                      | (True, s') \<Rightarrow>
                          OpenFile_create U K B V s' path is_directory desired_access
                            kOverwritten))))"

definition OpenFile ::
  "utf8 \<Rightarrow> constants \<Rightarrow> ('s, 'e, 'f) entry_ops \<Rightarrow> ('s, 'e) vfs \<Rightarrow> 's \<Rightarrow> 'e option \<Rightarrow> string
     \<Rightarrow> FileDisposition \<Rightarrow> 32 word \<Rightarrow> bool \<Rightarrow> bool \<Rightarrow> FileAction
     \<Rightarrow> ('s, 'f) open_result option" where
  "OpenFile U K B V s root_entry path creation_disposition desired_access is_directory
       is_non_directory a0 =
     (let desired_access = cleanup_access K desired_access in
      case OpenFile_lookup U B V s root_entry path of
        None \<Rightarrow> None
      | Some None \<Rightarrow> Some (X_STATUS_NO_SUCH_FILE K, kDoesNotExist, None, s)
      | Some (Some (parent_entry, None)) \<Rightarrow>
          OpenFile_dispose U K B V s path creation_disposition desired_access is_directory
            parent_entry None a0
      | Some (Some (parent_entry, Some entry)) \<Rightarrow>
          if attributes B s entry AND kFileAttributeDirectory K \<noteq> 0 \<and> is_non_directory
          then Some (X_STATUS_FILE_IS_A_DIRECTORY K, a0, None, s)
          else
            (case OpenFile_uncache B s parent_entry entry of
               (entry, s') \<Rightarrow>
                 OpenFile_dispose U K B V s' path creation_disposition desired_access
                   is_directory parent_entry entry a0))"

subsection \<open>Extraction of content\<close>

text \<open>
  An entry as the extraction walker sees it. The children of an entry are owned by
  it, so the entries of a device form a finite tree. Of the entry's behaviour the
  node records the status that \<open>Open(kFileReadData)\<close> returns, \<open>can_map()\<close>, the
  size of the mapped view, \<open>size()\<close>, and the number of bytes that \<open>ReadSync\<close>
  reports for a read at a given offset.
\<close>

datatype content_entry = ContentEntry
  (entry_path: string)
  (entry_name: string)
  (entry_attributes: "32 word")
  (entry_Open: X_STATUS)
  (entry_can_map: bool)
  (entry_map_size: "64 word")
  (entry_size: "64 word")
  (entry_ReadSync: "64 word \<Rightarrow> 64 word")
  (entry_children: "content_entry list")

text \<open>
  The host file system is a state of type \<open>'h\<close> with the operations that the
  extraction calls. A destination file is identified by its name and \<open>fwrite\<close> gets
  the number of bytes to write; the contents of the files are not modelled.
  \<open>to_dest base x\<close> is \<open>base_path / xe::to_path(x)\<close>, \<open>create_directories\<close> returns
  the value of the error code (0 for no error), \<open>filesystem_OpenFile\<close> tells whether
  \<open>xe::filesystem::OpenFile(dest_name, "wb")\<close> returned a file.
  \<open>extract_to_root_default\<close> is the default argument of \<open>ExtractContentFile\<close>, from
  its declaration.
\<close>

record 'h host_ops =
  to_dest :: "string \<Rightarrow> string \<Rightarrow> string"
  fix_path_separators :: "string \<Rightarrow> string"
  create_directories :: "'h \<Rightarrow> string \<Rightarrow> X_STATUS \<times> 'h"
  filesystem_OpenFile :: "'h \<Rightarrow> string \<Rightarrow> bool \<times> 'h"
  fwrite :: "'h \<Rightarrow> string \<Rightarrow> nat \<Rightarrow> 'h"
  fclose :: "'h \<Rightarrow> string \<Rightarrow> 'h"
  extract_to_root_default :: bool

text \<open>\<open>4_MiB\<close>, as a \<open>size_t\<close> of 64 bits.\<close>

definition write_buffer_size :: "64 word" where
  "write_buffer_size = 4 * 1024 * 1024"

text \<open>The copy loop over the mapped view; \<open>remaining_size\<close> is a \<open>size_t\<close> and wraps.\<close>

partial_function (option) ExtractContentFile_mapped ::
  "'h host_ops \<Rightarrow> 'h \<Rightarrow> string \<Rightarrow> 64 word \<Rightarrow> 'h option" where
  "ExtractContentFile_mapped H h dest_name remaining_size =
     (if remaining_size > 0
      then ExtractContentFile_mapped H (fwrite H h dest_name (unat write_buffer_size))
             dest_name (remaining_size - write_buffer_size)
      else Some h)"

declare ExtractContentFile_mapped.simps [code]

text \<open>The copy loop over synchronous reads.\<close>

partial_function (option) ExtractContentFile_sync ::
  "'h host_ops \<Rightarrow> content_entry \<Rightarrow> 'h \<Rightarrow> string \<Rightarrow> 64 word \<Rightarrow> 64 word \<Rightarrow> 64 word
     \<Rightarrow> ('h \<times> 64 word) option" where
  "ExtractContentFile_sync H entry h dest_name remaining_size offset progress =
     (if remaining_size > 0
      then ExtractContentFile_sync H entry
             (fwrite H h dest_name (unat (entry_ReadSync entry offset))) dest_name
             (remaining_size - entry_ReadSync entry offset)
             (offset + entry_ReadSync entry offset)
             (progress + entry_ReadSync entry offset)
      else Some (h, progress))"

declare ExtractContentFile_sync.simps [code]

text \<open>
  \<open>ExtractContentFile\<close> returns its status, the value of \<open>progress\<close> after the call
  and the state of the host. \<open>OpenMapped\<close> is taken to return a view, and
  \<open>Destroy\<close> and \<open>Close\<close> to do nothing that the extraction observes.
\<close>

definition ExtractContentFile ::
  "'h host_ops \<Rightarrow> constants \<Rightarrow> content_entry \<Rightarrow> string \<Rightarrow> 64 word \<Rightarrow> bool \<Rightarrow> 'h
     \<Rightarrow> (X_STATUS \<times> 64 word \<times> 'h) option" where
  "ExtractContentFile H K entry base_path progress extract_to_root h =
     (let dest_name = to_dest H base_path (fix_path_separators H (entry_path entry));
          dest_name = (if extract_to_root then to_dest H base_path (entry_name entry)
                       else dest_name)
      in
      if entry_attributes entry AND kFileAttributeDirectory K \<noteq> 0 then
        (case create_directories H h dest_name of
           (error_code, h') \<Rightarrow> Some (if error_code \<noteq> 0 then error_code else 0, progress, h'))
      else if entry_Open entry \<noteq> X_STATUS_SUCCESS K then Some (entry_Open entry, progress, h)
      else
        (case filesystem_OpenFile H h dest_name of
           (False, h') \<Rightarrow> Some (1, progress, h')
         | (True, h') \<Rightarrow>
             if entry_can_map entry then
               (case ExtractContentFile_mapped H h' dest_name (entry_map_size entry) of
                  None \<Rightarrow> None
                | Some h'' \<Rightarrow> Some (0, progress, fclose H h'' dest_name))
             else
               (case ExtractContentFile_sync H entry h' dest_name (entry_size entry) 0 progress of
                  None \<Rightarrow> None
                | Some (h'', progress') \<Rightarrow> Some (0, progress', fclose H h'' dest_name))))"

fun entry_count :: "content_entry \<Rightarrow> nat" where
  "entry_count (ContentEntry p n a st cm ms sz rd cs) = Suc (sum_list (map entry_count cs))"

text \<open>
  The \<open>while\<close> loop of \<open>ExtractContentFiles\<close> over the queue: the front is popped,
  its children are pushed at the back, and the entry is extracted.
\<close>

function ExtractContentFiles_loop ::
  "'h host_ops \<Rightarrow> constants \<Rightarrow> string \<Rightarrow> content_entry list \<Rightarrow> 64 word \<Rightarrow> 'h
     \<Rightarrow> (64 word \<times> 'h) option" where
  "ExtractContentFiles_loop H K base_path [] progress h = Some (progress, h)"
| "ExtractContentFiles_loop H K base_path (entry # queue) progress h =
     (case ExtractContentFile H K entry base_path progress (extract_to_root_default H) h of
        None \<Rightarrow> None
      | Some (status, progress', h') \<Rightarrow>
          ExtractContentFiles_loop H K base_path (queue @ entry_children entry) progress' h')"
  by pat_completeness auto
termination
proof (relation "measure (\<lambda>(H, K, base_path, queue, rest). sum_list (map entry_count queue))")
  show "wf (measure (\<lambda>(H :: 'h host_ops, K :: constants, base_path :: string,
      queue, rest :: 64 word \<times> 'h). sum_list (map entry_count queue)))"
    by simp
next
  fix H :: "'h host_ops" and K :: constants and base_path :: string
    and entry queue and progress progress' :: "64 word" and h h' :: 'h
  have "sum_list (map entry_count (entry_children entry)) < entry_count entry"
    by (cases entry) simp
  then show "((H, K, base_path, queue @ entry_children entry, progress', h'),
       (H, K, base_path, entry # queue, progress, h))
      \<in> measure (\<lambda>(H, K, base_path, queue, rest). sum_list (map entry_count queue))"
    by simp
qed

text \<open>
  \<open>root\<close> is what \<open>device->ResolvePath("/")\<close> returns; the loop dereferences it, so a
  null root is a call that does not return.
\<close>

definition ExtractContentFiles ::
  "'h host_ops \<Rightarrow> constants \<Rightarrow> content_entry option \<Rightarrow> string \<Rightarrow> 64 word \<Rightarrow> 'h
     \<Rightarrow> (X_STATUS \<times> 64 word \<times> 'h) option" where
  "ExtractContentFiles H K root base_path progress h =
     (case root of
        None \<Rightarrow> None
      | Some r \<Rightarrow>
          (case ExtractContentFiles_loop H K base_path [r] progress h of
             None \<Rightarrow> None
           | Some (progress', h') \<Rightarrow> Some (X_STATUS_SUCCESS K, progress', h')))"

section \<open>Restatements and sample instances\<close>

subsection \<open>Functions that follow the wording of the specification\<close>

text \<open>
  ``Repeatedly find a prefix match, replace the matched prefix with its target and
  keep the unmatched suffix'': the path after \<open>n\<close> rewrites by the first matching
  entry, if there are that many.
\<close>

fun rewrite_n ::
  "(string \<Rightarrow> string \<Rightarrow> bool) \<Rightarrow> (string \<times> string) list \<Rightarrow> nat \<Rightarrow> string \<Rightarrow> string option" where
  "rewrite_n sw links 0 r = Some r"
| "rewrite_n sw links (Suc n) r =
     (case find (\<lambda>s. sw r (fst s)) links of
        None \<Rightarrow> None
      | Some it \<Rightarrow>
          if length (fst it) \<le> length r
          then rewrite_n sw links n (snd it @ drop (length (fst it)) r)
          else None)"

text \<open>
  ``Walk remaining segments except the last, resolving each; if a segment does not
  resolve, create it as a directory under the current parent'': the walk over the
  list of these segments, which yields the parent for the last segment, or \<open>None\<close>
  for it when a creation is refused.
\<close>

fun CreatePath_walk ::
  "utf8 \<Rightarrow> constants \<Rightarrow> ('s, 'e, 'f) entry_ops \<Rightarrow> ('s, 'e) vfs \<Rightarrow> string list \<Rightarrow> string
     \<Rightarrow> 'e \<Rightarrow> 's \<Rightarrow> ('e option \<times> 's) option" where
  "CreatePath_walk U K B V [] partial_path parent s = Some (Some parent, s)"
| "CreatePath_walk U K B V (segment # segments) partial_path parent s =
     (case ResolvePath U V s (join_guest_paths U partial_path segment) of
        None \<Rightarrow> None
      | Some (Some child) \<Rightarrow>
          CreatePath_walk U K B V segments (join_guest_paths U partial_path segment) child s
      | Some None \<Rightarrow>
          (case CreateEntry B s parent segment (kFileAttributeDirectory K) of
             (None, s') \<Rightarrow> Some (None, s')
           | (Some child, s') \<Rightarrow>
               CreatePath_walk U K B V segments (join_guest_paths U partial_path segment)
                 child s'))"

text \<open>
  ``Split into path segments. Resolve the first segment (it must already resolve).
  Walk remaining segments except the last. Finally, create the last segment under
  the current parent with the caller-supplied attributes. Fails if any device along
  the way refuses creation or the path has no segments.''
\<close>

definition CreatePath_spec ::
  "utf8 \<Rightarrow> constants \<Rightarrow> ('s, 'e, 'f) entry_ops \<Rightarrow> ('s, 'e) vfs \<Rightarrow> 's \<Rightarrow> string \<Rightarrow> 32 word
     \<Rightarrow> ('e option \<times> 's) option" where
  "CreatePath_spec U K B V s path attrs =
     (case split_path U path of
        [] \<Rightarrow> Some (None, s)
      | first # remaining \<Rightarrow>
          (case ResolvePath U V s first of
             None \<Rightarrow> None
           | Some None \<Rightarrow> Some (None, s)
           | Some (Some root) \<Rightarrow>
               (case CreatePath_walk U K B V (butlast remaining) first root s of
                  None \<Rightarrow> None
                | Some (None, s') \<Rightarrow> Some (None, s')
                | Some (Some parent, s') \<Rightarrow>
                    Some (CreateEntry B s' parent (last (first # remaining)) attrs))))"

text \<open>The entries of a queue of trees in breadth-first order.\<close>

function breadth_first :: "content_entry list \<Rightarrow> content_entry list" where
  "breadth_first [] = []"
| "breadth_first (entry # queue) = entry # breadth_first (queue @ entry_children entry)"
  by pat_completeness auto
termination
proof (relation "measure (\<lambda>queue. sum_list (map entry_count queue))")
  show "wf (measure (\<lambda>queue. sum_list (map entry_count queue)))"
    by simp
next
  fix entry queue
  have "sum_list (map entry_count (entry_children entry)) < entry_count entry"
    by (cases entry) simp
  then show "(queue @ entry_children entry, entry # queue)
      \<in> measure (\<lambda>queue. sum_list (map entry_count queue))"
    by simp
qed

text \<open>An entry and all entries below it.\<close>

fun all_entries :: "content_entry \<Rightarrow> content_entry list" where
  "all_entries (ContentEntry p n a st cm ms sz rd cs) =
     ContentEntry p n a st cm ms sz rd cs # concat (map all_entries cs)"

text \<open>
  The extraction of the entries of a list one after the other, each with the
  progress and the host state that the one before left, whatever status it returned.
\<close>

fun extract_each ::
  "'h host_ops \<Rightarrow> constants \<Rightarrow> string \<Rightarrow> content_entry list \<Rightarrow> 64 word \<Rightarrow> 'h
     \<Rightarrow> (64 word \<times> 'h) option" where
  "extract_each H K base_path [] progress h = Some (progress, h)"
| "extract_each H K base_path (entry # entries) progress h =
     (case ExtractContentFile H K entry base_path progress (extract_to_root_default H) h of
        None \<Rightarrow> None
      | Some (status, progress', h') \<Rightarrow> extract_each H K base_path entries progress' h')"

subsection \<open>Sample instances of the parameters\<close>

text \<open>
  Concrete helpers, constants, entries and devices on which the theorems below are
  exercised. The separator of guest paths is the backslash, \<open>CHR 0x5C\<close>.
\<close>

definition sample_starts_with_case :: "string \<Rightarrow> string \<Rightarrow> bool" where
  "sample_starts_with_case haystack needle \<longleftrightarrow>
     prefix (map lower_ascii needle) (map lower_ascii haystack)"

fun sample_split :: "string \<Rightarrow> string \<Rightarrow> string list" where
  "sample_split part [] = (if part = [] then [] else [part])"
| "sample_split part (c # cs) =
     (if c = CHR 0x5C then (if part = [] then [] else [part]) @ sample_split [] cs
      else sample_split (part @ [c]) cs)"

definition sample_utf8 :: utf8 where
  "sample_utf8 =
     \<lparr>canonicalize_guest_path = (\<lambda>p. p),
      starts_with_case = sample_starts_with_case,
      split_path = sample_split [],
      join_guest_paths = (\<lambda>a b. a @ CHR 0x5C # b),
      find_base_guest_path = (\<lambda>p. rev (drop 1 (dropWhile (\<lambda>c. c \<noteq> CHR 0x5C) (rev p)))),
      find_name_from_guest_path = (\<lambda>p. rev (takeWhile (\<lambda>c. c \<noteq> CHR 0x5C) (rev p)))\<rparr>"

definition sample_constants :: constants where
  "sample_constants =
     \<lparr>kGenericRead = 0x80000000, kGenericWrite = 0x40000000, kGenericAll = 0x10000000,
      kFileReadData = 1, kFileWriteData = 2, kFileAppendData = 4,
      kFileAttributeDirectory = 0x10, kFileAttributeNormal = 0x80,
      X_STATUS_SUCCESS = 0, X_STATUS_NO_SUCH_FILE = 0xC000000F,
      X_STATUS_OBJECT_NAME_COLLISION = 0xC0000035, X_STATUS_ACCESS_DENIED = 0xC0000022,
      X_STATUS_FILE_IS_A_DIRECTORY = 0xC00000BA,
      XFAILED = (\<lambda>status. status AND 0xC0000000 \<noteq> 0)\<rparr>"

text \<open>
  A sample world: the entries of one device, each a path relative to the mount point
  with its attribute bits (bit 0 marks a read-only entry), and the paths of the
  entries that cannot be opened at present. The root of the device is the empty path.
  An entry handle is the relative path; an open file is the access it was opened with.
\<close>

record sample_world =
  entries :: "(string \<times> 32 word) list"
  locked :: "string list"

definition sample_lookup :: "sample_world \<Rightarrow> string \<Rightarrow> string option" where
  "sample_lookup s p = (if p = [] \<or> map_of (entries s) p \<noteq> None then Some p else None)"

definition sample_attributes :: "sample_world \<Rightarrow> string \<Rightarrow> 32 word" where
  "sample_attributes s p = (case map_of (entries s) p of None \<Rightarrow> 0x10 | Some a \<Rightarrow> a)"

definition sample_ops :: "(sample_world, string, 32 word) entry_ops" where
  "sample_ops =
     \<lparr>entry_ResolvePath = (\<lambda>s e rel. sample_lookup s (e @ rel)),
      GetChild = (\<lambda>s e n. if map_of (entries s) (e @ CHR 0x5C # n) \<noteq> None
                           then Some (e @ CHR 0x5C # n) else None),
      attributes = sample_attributes,
      is_read_only = (\<lambda>s e. sample_attributes s e AND 1 \<noteq> 0),
      name = (\<lambda>s e. rev (takeWhile (\<lambda>c. c \<noteq> CHR 0x5C) (rev e))),
      Delete = (\<lambda>s e. if sample_attributes s e AND 1 \<noteq> 0 then (False, s)
                        else (True, s\<lparr>entries := filter (\<lambda>x. fst x \<noteq> e) (entries s)\<rparr>)),
      CreateEntry = (\<lambda>s e n a.
         if map_of (entries s) (e @ CHR 0x5C # n) \<noteq> None \<or> sample_attributes s e AND 1 \<noteq> 0
         then (None, s)
         else (Some (e @ CHR 0x5C # n), s\<lparr>entries := entries s @ [(e @ CHR 0x5C # n, a)]\<rparr>)),
      Open = (\<lambda>s e access. if e \<in> set (locked s) then ((0xC0000043, None), s)
                             else ((0, Some access), s)),
      host_path = (\<lambda>e. None),
      fs_join = (\<lambda>a b. a @ b),
      fs_exists = (\<lambda>s p. True)\<rparr>"

text \<open>The same entries on a device that deletes read-only entries when asked to.\<close>

definition lenient_ops :: "(sample_world, string, 32 word) entry_ops" where
  "lenient_ops =
     sample_ops\<lparr>Delete :=
       (\<lambda>s e. (True, s\<lparr>entries := filter (\<lambda>x. fst x \<noteq> e) (entries s)\<rparr>))\<rparr>"

definition sample_vfs :: "(sample_world, string) vfs" where
  "sample_vfs =
     \<lparr>devices = [\<lparr>mount_path = ''d:'', dev_ResolvePath = sample_lookup\<rparr>],
      symlinks = [(''game:'', ''d:'')]\<rparr>"

text \<open>
  A world with a directory \<open>\dir\<close>, a file \<open>\a\<close>, a read-only file \<open>\ro\<close> and a file
  \<open>\busy\<close> that cannot be opened.
\<close>

definition sample_state :: sample_world where
  "sample_state =
     \<lparr>entries = [(CHR 0x5C # ''dir'', 0x10), (CHR 0x5C # ''a'', 0x80),
                 (CHR 0x5C # ''ro'', 0x81), (CHR 0x5C # ''busy'', 0x80)],
      locked = [CHR 0x5C # ''busy'']\<rparr>"

text \<open>Devices that answer with their own mount path and the relative path they got.\<close>

definition tagged_device :: "string \<Rightarrow> (unit, string \<times> string) device" where
  "tagged_device m = \<lparr>mount_path = m, dev_ResolvePath = (\<lambda>s rel. Some (m, rel))\<rparr>"

definition sample_registry :: "(unit, string \<times> string) vfs" where
  "sample_registry =
     \<lparr>devices = [tagged_device ''GAME:'', tagged_device ''game:'', tagged_device ''GAME:''],
      symlinks = []\<rparr>"

text \<open>A chain of two symbolic links, with no device.\<close>

definition sample_chain :: "(unit, string \<times> string) vfs" where
  "sample_chain = \<lparr>devices = [], symlinks = [(''a:'', ''b:''), (''b:'', ''c:'')]\<rparr>"

text \<open>
  Two devices whose mount paths both begin the path \<open>d:\sub\x\<close>, the one with the
  shorter mount path registered first, and the same two registered in the other order.
\<close>

definition empty_vfs :: "(unit, string \<times> string) vfs" where
  "empty_vfs = \<lparr>devices = [], symlinks = []\<rparr>"

definition short_first :: "(unit, string \<times> string) vfs" where
  "short_first =
     snd (RegisterDevice
            (snd (RegisterDevice empty_vfs (tagged_device ''d:'')))
            (tagged_device (''d:'' @ CHR 0x5C # ''sub'')))"

definition long_first :: "(unit, string \<times> string) vfs" where
  "long_first =
     snd (RegisterDevice
            (snd (RegisterDevice empty_vfs (tagged_device (''d:'' @ CHR 0x5C # ''sub''))))
            (tagged_device ''d:''))"

text \<open>
  A host that counts the bytes handed to \<open>fwrite\<close>, on which every directory can be
  created and every file opened.
\<close>

definition counting_host :: "nat host_ops" where
  "counting_host =
     \<lparr>to_dest = (\<lambda>base x. base @ x),
      fix_path_separators = (\<lambda>p. p),
      create_directories = (\<lambda>h d. (0, h)),
      filesystem_OpenFile = (\<lambda>h d. (True, h)),
      fwrite = (\<lambda>h d n. h + n),
      fclose = (\<lambda>h d. h),
      extract_to_root_default = False\<rparr>"

text \<open>
  Sample entries of a content device: a file whose \<open>Open\<close> is refused, a file of five
  bytes that is read synchronously, a file of 4 MiB that can be mapped, and a root
  directory above the first two.
\<close>

definition refused_file :: content_entry where
  "refused_file =
     ContentEntry (CHR 0x5C # ''bad'') ''bad'' 0x80 0xC0000022 False 0 0 (\<lambda>offset. 0) []"

definition small_file :: content_entry where
  "small_file =
     ContentEntry (CHR 0x5C # ''good'') ''good'' 0x80 0 False 0 5
       (\<lambda>offset. if offset < 5 then 5 - offset else 0) []"

definition mapped_file :: content_entry where
  "mapped_file =
     ContentEntry (CHR 0x5C # ''map'') ''map'' 0x80 0 True 0x400000 0x400000 (\<lambda>offset. 0) []"

definition content_root :: content_entry where
  "content_root = ContentEntry [] [] 0x10 0 False 0 0 (\<lambda>offset. 0) [refused_file, small_file]"

section \<open>Properties\<close>

subsection \<open>Facts about the sample instances\<close>

lemma lower_ascii_samples:
  "map lower_ascii ''a:'' = ''a:''" "map lower_ascii ''b:'' = ''b:''"
  "map lower_ascii ''c:'' = ''c:''" "map lower_ascii ''A:x'' = ''a:x''"
  "map lower_ascii ''z:x'' = ''z:x''" "map lower_ascii ''GAME:'' = ''game:''"
  "map lower_ascii ''Game:'' = ''game:''"
  by code_simp+

lemma sample_starts_with_case_fits:
  "sample_starts_with_case h n \<Longrightarrow> length n \<le> length h"
  unfolding sample_starts_with_case_def by (drule prefix_length_le) simp

lemma sample_starts_with_case_prefix: "sample_starts_with_case (n @ x) n"
  by (simp add: sample_starts_with_case_def)

subsection \<open>The first element of a list with a property\<close>

lemma first_index:
  assumes "\<exists>d \<in> set ds. P d"
  shows "\<exists>i < length ds. P (ds ! i) \<and> (\<forall>j < i. \<not> P (ds ! j))"
proof -
  from assms obtain k where k: "k < length ds \<and> P (ds ! k)"
    by (auto simp: in_set_conv_nth)
  define i where "i = (LEAST k. k < length ds \<and> P (ds ! k))"
  have i: "i < length ds \<and> P (ds ! i)"
    unfolding i_def using k by (rule LeastI)
  have "\<forall>j < i. \<not> P (ds ! j)"
  proof (intro allI impI)
    fix j assume "j < i"
    then have "\<not> (j < length ds \<and> P (ds ! j))"
      unfolding i_def by (rule not_less_Least)
    moreover from \<open>j < i\<close> i have "j < length ds" by simp
    ultimately show "\<not> P (ds ! j)" by simp
  qed
  with i show ?thesis by blast
qed

lemma find_in_pair:
  "set links = {x, y} \<Longrightarrow> find P links = Some it \<Longrightarrow> (it = x \<or> it = y) \<and> P it"
  by (auto simp: find_Some_iff)

lemma find_None_pair:
  "set links = {x, y} \<Longrightarrow> \<not> P x \<Longrightarrow> \<not> P y \<Longrightarrow> find P links = None"
  by (auto simp: find_None_iff)

lemma find_Some_only:
  "set links = {x, y} \<Longrightarrow> \<not> P x \<Longrightarrow> P y \<Longrightarrow> find P links = Some y"
  by (cases "find P links") (auto simp: find_None_iff dest: find_in_pair)

subsection \<open>UnregisterDevice\<close>

lemma UnregisterDevice_loop_absent:
  "\<forall>d \<in> set ds. mount_path d \<noteq> path \<Longrightarrow> UnregisterDevice_loop ds path = (False, ds)"
  by (induction ds) auto

lemma UnregisterDevice_loop_first:
  "i < length ds \<Longrightarrow> mount_path (ds ! i) = path
     \<Longrightarrow> \<forall>j < i. mount_path (ds ! j) \<noteq> path
     \<Longrightarrow> UnregisterDevice_loop ds path = (True, take i ds @ drop (Suc i) ds)"
proof (induction ds arbitrary: i)
  case Nil
  then show ?case by simp
next
  case (Cons d ds)
  show ?case
  proof (cases i)
    case 0
    with Cons.prems show ?thesis by simp
  next
    case (Suc k)
    with Cons.prems have k: "k < length ds" "mount_path (ds ! k) = path"
      by simp_all
    from Cons.prems Suc have "\<forall>j < k. mount_path (ds ! j) \<noteq> path"
      by (metis Suc_less_eq nth_Cons_Suc)
    with k have "UnregisterDevice_loop ds path = (True, take k ds @ drop (Suc k) ds)"
      by (rule Cons.IH)
    moreover from Cons.prems Suc have "mount_path d \<noteq> path"
      by (metis nth_Cons_0 zero_less_Suc)
    ultimately show ?thesis using Suc by simp
  qed
qed

text \<open>
  Claim C7, as the code has it. \<open>UnregisterDevice\<close> removes the first registered
  device whose mount path is equal to the argument, character for character, and
  returns true; if no device has a mount path equal to the argument it removes
  nothing and returns false.
\<close>

theorem UnregisterDevice_exact:
  "(\<exists>i < length (devices V). mount_path (devices V ! i) = path
       \<and> (\<forall>j < i. mount_path (devices V ! j) \<noteq> path)
       \<and> UnregisterDevice V path
           = (True, V\<lparr>devices := take i (devices V) @ drop (Suc i) (devices V)\<rparr>))
   \<or> ((\<forall>d \<in> set (devices V). mount_path d \<noteq> path) \<and> UnregisterDevice V path = (False, V))"
proof (cases "\<exists>d \<in> set (devices V). mount_path d = path")
  case True
  then obtain i where i: "i < length (devices V)" "mount_path (devices V ! i) = path"
      "\<forall>j < i. mount_path (devices V ! j) \<noteq> path"
    using first_index [of "devices V" "\<lambda>d. mount_path d = path"] by blast
  then have "UnregisterDevice_loop (devices V) path
      = (True, take i (devices V) @ drop (Suc i) (devices V))"
    by (rule UnregisterDevice_loop_first)
  then have "UnregisterDevice V path
      = (True, V\<lparr>devices := take i (devices V) @ drop (Suc i) (devices V)\<rparr>)"
    by (simp add: UnregisterDevice_def)
  with i show ?thesis by blast
next
  case False
  then have "UnregisterDevice_loop (devices V) path = (False, devices V)"
    by (intro UnregisterDevice_loop_absent) blast
  then have "UnregisterDevice V path = (False, V)"
    by (simp add: UnregisterDevice_def)
  with False show ?thesis by blast
qed

text \<open>
  The theorem at the sample registry: \<open>game:\<close> is the mount path of the second device
  only, which is removed, and no mount path is \<open>Game:\<close>.
\<close>

theorem UnregisterDevice_exact_witness:
  "UnregisterDevice sample_registry ''game:''
     = (True, \<lparr>devices = [tagged_device ''GAME:'', tagged_device ''GAME:''], symlinks = []\<rparr>)
   \<and> UnregisterDevice sample_registry ''Game:'' = (False, sample_registry)"
  using UnregisterDevice_exact [of sample_registry "''game:''"]
    UnregisterDevice_exact [of sample_registry "''Game:''"]
  by (simp add: sample_registry_def tagged_device_def UnregisterDevice_def)

text \<open>
  Claim C7, as the specification words it, fails: the mount path \<open>GAME:\<close> of the first
  device equals the argument \<open>Game:\<close> without regard to case, and yet nothing is
  removed and the call returns false.
\<close>

theorem UnregisterDevice_case_counterexample:
  "equal_case (mount_path (devices sample_registry ! 0)) ''Game:''
   \<and> UnregisterDevice sample_registry ''Game:'' = (False, sample_registry)"
proof -
  have "equal_case ''GAME:'' ''Game:''"
    by code_simp
  then show ?thesis
    by (simp add: sample_registry_def tagged_device_def UnregisterDevice_def)
qed

subsection \<open>ResolveSymbolicLink\<close>

text \<open>
  The loop returns after \<open>n\<close> rewrites that end in a path without a match, and
  reports whether it was entered with the flag set or rewrote at least once.
\<close>

lemma ResolveSymbolicLink_loop_complete:
  "rewrite_n sw links n p = Some r \<Longrightarrow> find (\<lambda>s. sw r (fst s)) links = None
     \<Longrightarrow> ResolveSymbolicLink_loop sw links p w = Some (w \<or> 0 < n, r)"
proof (induction n arbitrary: p w)
  case 0
  then show ?case
    by (subst ResolveSymbolicLink_loop.simps) simp
next
  case (Suc n)
  from Suc.prems(1) obtain it where it: "find (\<lambda>s. sw p (fst s)) links = Some it"
      "length (fst it) \<le> length p"
      "rewrite_n sw links n (snd it @ drop (length (fst it)) p) = Some r"
    by (auto split: option.splits if_splits)
  from Suc.IH [OF it(3) Suc.prems(2), of True]
  show ?case
    using it(1,2) by (subst ResolveSymbolicLink_loop.simps) (simp add: substr_def)
qed

text \<open>
  Conversely, by induction over the unfoldings of the loop: a run that returns has
  made finitely many rewrites.
\<close>

lemma ResolveSymbolicLink_loop_sound:
  assumes "ResolveSymbolicLink_loop sw links p w = Some res"
  shows "\<exists>n. rewrite_n sw links n p = Some (snd res)
           \<and> find (\<lambda>s. sw (snd res) (fst s)) links = None \<and> fst res = (w \<or> 0 < n)"
proof (rule ResolveSymbolicLink_loop.raw_induct
    [where P = "\<lambda>sw links p w res. \<exists>n. rewrite_n sw links n p = Some (snd res)
           \<and> find (\<lambda>s. sw (snd res) (fst s)) links = None \<and> fst res = (w \<or> 0 < n)",
     OF _ assms])
  fix loop sw links p w res
  assume IH: "\<And>sw links p w res. loop sw links p w = Some res \<Longrightarrow>
      \<exists>n. rewrite_n sw links n p = Some (snd res)
           \<and> find (\<lambda>s. sw (snd res) (fst s)) links = None \<and> fst res = (w \<or> 0 < n)"
    and body: "(case find (\<lambda>s. sw p (fst s)) links of
        None \<Rightarrow> Some (w, p)
      | Some it \<Rightarrow>
          (case substr p (length (fst it)) of
             None \<Rightarrow> None
           | Some relative_path \<Rightarrow> loop sw links (snd it @ relative_path) True)) = Some res"
  show "\<exists>n. rewrite_n sw links n p = Some (snd res)
           \<and> find (\<lambda>s. sw (snd res) (fst s)) links = None \<and> fst res = (w \<or> 0 < n)"
  proof (cases "find (\<lambda>s. sw p (fst s)) links")
    case None
    with body have "res = (w, p)" by simp
    with None have "rewrite_n sw links 0 p = Some (snd res)
        \<and> find (\<lambda>s. sw (snd res) (fst s)) links = None \<and> fst res = (w \<or> 0 < (0::nat))"
      by simp
    then show ?thesis by blast
  next
    case (Some it)
    with body have fit: "length (fst it) \<le> length p"
      and rec: "loop sw links (snd it @ drop (length (fst it)) p) True = Some res"
      by (auto simp: substr_def split: if_splits)
    from IH [OF rec] obtain n where
      n: "rewrite_n sw links n (snd it @ drop (length (fst it)) p) = Some (snd res)"
        "find (\<lambda>s. sw (snd res) (fst s)) links = None" "fst res = (True \<or> 0 < n)"
      by blast
    with Some fit have "rewrite_n sw links (Suc n) p = Some (snd res)
        \<and> find (\<lambda>s. sw (snd res) (fst s)) links = None \<and> fst res = (w \<or> 0 < Suc n)"
      by simp
    then show ?thesis by blast
  qed
qed

lemma ResolveSymbolicLink_iff:
  "ResolveSymbolicLink U V path = Some (b, r) \<longleftrightarrow>
     (\<exists>n. rewrite_n (starts_with_case U) (symlinks V) n path = Some r
          \<and> find (\<lambda>s. starts_with_case U r (fst s)) (symlinks V) = None \<and> b = (0 < n))"
  unfolding ResolveSymbolicLink_def
  using ResolveSymbolicLink_loop_sound [of "starts_with_case U" "symlinks V" path False "(b, r)"]
    ResolveSymbolicLink_loop_complete [of "starts_with_case U" "symlinks V" _ path r False]
  by auto

lemma ResolveSymbolicLink_no_match:
  "find (\<lambda>s. starts_with_case U path (fst s)) (symlinks V) = None
     \<Longrightarrow> ResolveSymbolicLink U V path = Some (False, path)"
  unfolding ResolveSymbolicLink_def
  by (subst ResolveSymbolicLink_loop.simps) simp

lemma ResolveSymbolicLink_unresolved:
  assumes "ResolveSymbolicLink U V path = Some (False, r)"
  shows "r = path"
proof -
  from assms obtain n where "rewrite_n (starts_with_case U) (symlinks V) n path = Some r"
      "False = (0 < n)"
    unfolding ResolveSymbolicLink_iff by blast
  then show ?thesis by simp
qed

text \<open>
  A chain \<open>A \<rightarrow> B\<close>, \<open>B \<rightarrow> C\<close> in which no path that begins with a target begins with
  an earlier source. The helper \<open>starts_with_case\<close> is assumed to accept a needle
  only if it is no longer than the haystack, and to accept \<open>B\<close> at the start of any
  string that begins with \<open>B\<close>.
\<close>

lemma ResolveSymbolicLink_chain:
  assumes links: "set (symlinks V) = {(A, B), (B, C)}"
    and fits: "\<forall>h n. starts_with_case U h n \<longrightarrow> length n \<le> length h"
    and pre: "\<forall>x. starts_with_case U (B @ x) B"
    and acyclic: "\<forall>x. \<not> starts_with_case U (B @ x) A \<and> \<not> starts_with_case U (C @ x) A
        \<and> \<not> starts_with_case U (C @ x) B"
    and path: "starts_with_case U path A"
  shows "\<exists>r. ResolveSymbolicLink U V path = Some (True, r) \<and> prefix C r"
proof -
  let ?sw = "starts_with_case U" and ?L = "symlinks V"
  have stop: "ResolveSymbolicLink_loop ?sw ?L (C @ x) True = Some (True, C @ x)" for x
  proof -
    have "find (\<lambda>s. ?sw (C @ x) (fst s)) ?L = None"
      using links acyclic by (intro find_None_pair [of _ "(A, B)" "(B, C)"]) simp_all
    then show ?thesis
      by (subst ResolveSymbolicLink_loop.simps) simp
  qed
  have viaB: "ResolveSymbolicLink_loop ?sw ?L (B @ x) True = Some (True, C @ x)" for x
  proof -
    have "find (\<lambda>s. ?sw (B @ x) (fst s)) ?L = Some (B, C)"
      using links acyclic pre by (intro find_Some_only [of _ "(A, B)" "(B, C)"]) simp_all
    then show ?thesis
      by (subst ResolveSymbolicLink_loop.simps) (simp add: substr_def stop)
  qed
  obtain it where it: "find (\<lambda>s. ?sw path (fst s)) ?L = Some it"
    using links path by (cases "find (\<lambda>s. ?sw path (fst s)) ?L") (auto simp: find_None_iff)
  then have cases: "it = (A, B) \<or> it = (B, C)" and m: "?sw path (fst it)"
    using find_in_pair [OF links it] by simp_all
  from m fits have len: "length (fst it) \<le> length path" by blast
  from cases show ?thesis
  proof
    assume "it = (A, B)"
    with it len have "ResolveSymbolicLink U V path = Some (True, C @ drop (length A) path)"
      unfolding ResolveSymbolicLink_def
      by (subst ResolveSymbolicLink_loop.simps) (simp add: substr_def viaB)
    then show ?thesis by simp
  next
    assume "it = (B, C)"
    with it len have "ResolveSymbolicLink U V path = Some (True, C @ drop (length B) path)"
      unfolding ResolveSymbolicLink_def
      by (subst ResolveSymbolicLink_loop.simps) (simp add: substr_def stop)
    then show ?thesis by simp
  qed
qed

text \<open>
  Claim C2. \<open>ResolveSymbolicLink\<close> returns the flag \<open>b\<close> and the path \<open>r\<close> exactly when
  some number \<open>n\<close> of rewrites, each by the first entry whose source matches the start
  of the current path and each replacing the matched prefix by the target while
  keeping the rest, leads from \<open>path\<close> to \<open>r\<close>, no entry matches \<open>r\<close>, and \<open>b\<close> tells
  whether \<open>n\<close> is positive. A path that no source matches is returned unchanged with
  the flag false. For a table that consists of \<open>A \<rightarrow> B\<close> and \<open>B \<rightarrow> C\<close> without a cycle
  (no path that begins with \<open>B\<close> matches \<open>A\<close>, none that begins with \<open>C\<close> matches \<open>A\<close> or
  \<open>B\<close>), every path that matches \<open>A\<close> is resolved, with the flag true, to a path that
  begins with \<open>C\<close>.
\<close>

theorem ResolveSymbolicLink_fixpoint:
  "(ResolveSymbolicLink U V path = Some (b, r) \<longleftrightarrow>
      (\<exists>n. rewrite_n (starts_with_case U) (symlinks V) n path = Some r
           \<and> find (\<lambda>s. starts_with_case U r (fst s)) (symlinks V) = None \<and> b = (0 < n)))
   \<and> (find (\<lambda>s. starts_with_case U path (fst s)) (symlinks V) = None
        \<longrightarrow> ResolveSymbolicLink U V path = Some (False, path))
   \<and> (set (symlinks V) = {(A, B), (B, C)}
        \<and> (\<forall>h n. starts_with_case U h n \<longrightarrow> length n \<le> length h)
        \<and> (\<forall>x. starts_with_case U (B @ x) B)
        \<and> (\<forall>x. \<not> starts_with_case U (B @ x) A \<and> \<not> starts_with_case U (C @ x) A
                \<and> \<not> starts_with_case U (C @ x) B)
        \<and> starts_with_case U path A
        \<longrightarrow> (\<exists>r. ResolveSymbolicLink U V path = Some (True, r) \<and> prefix C r))"
  using ResolveSymbolicLink_iff [of U V path b r] ResolveSymbolicLink_no_match [of U path V]
    ResolveSymbolicLink_chain [of V A B C U path]
  by blast

text \<open>
  The theorem at the sample chain \<open>a: \<rightarrow> b:\<close>, \<open>b: \<rightarrow> c:\<close>: the path \<open>A:x\<close> matches the
  first source without regard to case and is resolved to a path that begins with
  \<open>c:\<close>; the path \<open>z:x\<close> matches no source and is returned as it is.
\<close>

theorem ResolveSymbolicLink_fixpoint_witness:
  "sample_starts_with_case ''A:x'' ''a:''
   \<and> (\<exists>r. ResolveSymbolicLink sample_utf8 sample_chain ''A:x'' = Some (True, r) \<and> prefix ''c:'' r)
   \<and> find (\<lambda>s. sample_starts_with_case ''z:x'' (fst s)) (symlinks sample_chain) = None
   \<and> ResolveSymbolicLink sample_utf8 sample_chain ''z:x'' = Some (False, ''z:x'')"
proof -
  have sw: "starts_with_case sample_utf8 = sample_starts_with_case"
    by (simp add: sample_utf8_def)
  have links: "set (symlinks sample_chain) = {(''a:'', ''b:''), (''b:'', ''c:'')}"
    by (simp add: sample_chain_def)
  have fits: "\<forall>h n. starts_with_case sample_utf8 h n \<longrightarrow> length n \<le> length h"
    unfolding sw by (blast intro: sample_starts_with_case_fits)
  have pre: "\<forall>x. starts_with_case sample_utf8 (''b:'' @ x) ''b:''"
    unfolding sw by (blast intro: sample_starts_with_case_prefix)
  have low: "map lower_ascii (''b:'' @ x) = ''b:'' @ map lower_ascii x"
    "map lower_ascii (''c:'' @ x) = ''c:'' @ map lower_ascii x" for x
    using lower_ascii_samples(2,3) by (simp_all only: map_append)
  have acyclic: "\<forall>x. \<not> starts_with_case sample_utf8 (''b:'' @ x) ''a:''
      \<and> \<not> starts_with_case sample_utf8 (''c:'' @ x) ''a:''
      \<and> \<not> starts_with_case sample_utf8 (''c:'' @ x) ''b:''"
    unfolding sw sample_starts_with_case_def low lower_ascii_samples by simp
  have path: "sample_starts_with_case ''A:x'' ''a:''"
    unfolding sample_starts_with_case_def lower_ascii_samples by simp
  have none: "find (\<lambda>s. sample_starts_with_case ''z:x'' (fst s)) (symlinks sample_chain) = None"
    unfolding sample_starts_with_case_def sample_chain_def
    by (simp add: lower_ascii_samples del: list.map)
  from ResolveSymbolicLink_fixpoint
    [of sample_utf8 sample_chain "''A:x''" True "''''" "''a:''" "''b:''" "''c:''"]
    links fits pre acyclic path
  have chain: "\<exists>r. ResolveSymbolicLink sample_utf8 sample_chain ''A:x'' = Some (True, r)
      \<and> prefix ''c:'' r"
    unfolding sw by blast
  from ResolveSymbolicLink_fixpoint
    [of sample_utf8 sample_chain "''z:x''" True "''''" "''a:''" "''b:''" "''c:''"] none
  have "ResolveSymbolicLink sample_utf8 sample_chain ''z:x'' = Some (False, ''z:x'')"
    unfolding sw by blast
  with path chain none show ?thesis by blast
qed

subsection \<open>ResolvePath\<close>

text \<open>
  Claim C3. Let the symbolic links resolve the canonical form of the path to
  \<open>resolved\<close>. If the device at position \<open>i\<close> of the registry has a mount path that
  is a literal prefix of \<open>resolved\<close> and no device before it has, then \<open>ResolvePath\<close>
  returns what that device resolves the rest of the path to, whatever the other
  devices and the lengths of their mount paths are. If no device has such a mount
  path, \<open>ResolvePath\<close> returns null.
\<close>

theorem ResolvePath_first_registered:
  assumes "ResolveSymbolicLink U V (canonicalize_guest_path U path) = Some (was_resolved, resolved)"
  shows "(\<forall>i < length (devices V).
            prefix (mount_path (devices V ! i)) resolved
            \<and> (\<forall>j < i. \<not> prefix (mount_path (devices V ! j)) resolved)
            \<longrightarrow> ResolvePath U V s path
                  = Some (dev_ResolvePath (devices V ! i) s
                            (drop (length (mount_path (devices V ! i))) resolved)))
         \<and> ((\<forall>d \<in> set (devices V). \<not> prefix (mount_path d) resolved)
            \<longrightarrow> ResolvePath U V s path = Some None)"
proof -
  have norm: "(if was_resolved then resolved else canonicalize_guest_path U path) = resolved"
    using assms ResolveSymbolicLink_unresolved [of U V "canonicalize_guest_path U path" resolved]
    by (cases was_resolved) simp_all
  have found: "ResolvePath U V s path
      = Some (dev_ResolvePath (devices V ! i) s
                (drop (length (mount_path (devices V ! i))) resolved))"
    if i: "i < length (devices V)" "prefix (mount_path (devices V ! i)) resolved"
      "\<forall>j < i. \<not> prefix (mount_path (devices V ! j)) resolved" for i
  proof -
    have "find (\<lambda>d. starts_with resolved (mount_path d)) (devices V) = Some (devices V ! i)"
      unfolding find_Some_iff starts_with_def using i by blast
    moreover have "length (mount_path (devices V ! i)) \<le> length resolved"
      using i(2) by (rule prefix_length_le)
    ultimately show ?thesis
      using assms norm by (simp add: ResolvePath_def substr_def)
  qed
  have missing: "ResolvePath U V s path = Some None"
    if "\<forall>d \<in> set (devices V). \<not> prefix (mount_path d) resolved"
  proof -
    have "find (\<lambda>d. starts_with resolved (mount_path d)) (devices V) = None"
      unfolding find_None_iff starts_with_def using that by blast
    then show ?thesis
      using assms norm by (simp add: ResolvePath_def)
  qed
  from found missing show ?thesis by blast
qed

text \<open>
  The theorem at two overlapping devices: where \<open>d:\<close> is registered before
  \<open>d:\sub\<close>, the path \<open>d:\sub\x\<close> goes to \<open>d:\<close> although the other mount path is the
  longer prefix; where they are registered in the other order it goes to \<open>d:\sub\<close>;
  a path under \<open>e:\<close> finds no device.
\<close>

theorem ResolvePath_first_registered_witness:
  "ResolveSymbolicLink sample_utf8 short_first
       (canonicalize_guest_path sample_utf8 (''d:'' @ CHR 0x5C # ''sub'' @ CHR 0x5C # ''x''))
     = Some (False, ''d:'' @ CHR 0x5C # ''sub'' @ CHR 0x5C # ''x'')
   \<and> prefix (mount_path (devices short_first ! 1)) (''d:'' @ CHR 0x5C # ''sub'' @ CHR 0x5C # ''x'')
   \<and> ResolvePath sample_utf8 short_first () (''d:'' @ CHR 0x5C # ''sub'' @ CHR 0x5C # ''x'')
     = Some (Some (''d:'', CHR 0x5C # ''sub'' @ CHR 0x5C # ''x''))
   \<and> ResolvePath sample_utf8 long_first () (''d:'' @ CHR 0x5C # ''sub'' @ CHR 0x5C # ''x'')
     = Some (Some (''d:'' @ CHR 0x5C # ''sub'', CHR 0x5C # ''x''))
   \<and> ResolvePath sample_utf8 short_first () ''e:x'' = Some None"
proof -
  let ?p = "''d:'' @ CHR 0x5C # ''sub'' @ CHR 0x5C # ''x''"
  have devs: "devices short_first = [tagged_device ''d:'', tagged_device (''d:'' @ CHR 0x5C # ''sub'')]"
    "symlinks short_first = []"
    by (simp_all add: short_first_def empty_vfs_def RegisterDevice_def)
  have canon: "canonicalize_guest_path sample_utf8 q = q" for q
    by (simp add: sample_utf8_def)
  have links: "ResolveSymbolicLink sample_utf8 short_first q = Some (False, q)" for q
    by (rule ResolveSymbolicLink_no_match) (simp add: devs)
  have second: "prefix (mount_path (devices short_first ! 1)) ?p"
    by (simp add: devs tagged_device_def)
  have link: "ResolveSymbolicLink sample_utf8 short_first (canonicalize_guest_path sample_utf8 q)
      = Some (False, q)" for q
    by (simp only: canon links)
  have "ResolvePath sample_utf8 short_first () ?p
      = Some (dev_ResolvePath (devices short_first ! 0) ()
                (drop (length (mount_path (devices short_first ! 0))) ?p))"
    by (rule ResolvePath_first_registered [OF link, THEN conjunct1, rule_format, of 0])
      (simp_all add: devs tagged_device_def)
  then have first: "ResolvePath sample_utf8 short_first () ?p
      = Some (Some (''d:'', CHR 0x5C # ''sub'' @ CHR 0x5C # ''x''))"
    by (simp add: devs tagged_device_def)
  have none: "ResolvePath sample_utf8 short_first () ''e:x'' = Some None"
    by (rule ResolvePath_first_registered [OF link, THEN conjunct2, rule_format])
      (auto simp add: devs tagged_device_def)
  have devs': "devices long_first = [tagged_device (''d:'' @ CHR 0x5C # ''sub''), tagged_device ''d:'']"
    "symlinks long_first = []"
    by (simp_all add: long_first_def empty_vfs_def RegisterDevice_def)
  have link': "ResolveSymbolicLink sample_utf8 long_first (canonicalize_guest_path sample_utf8 ?p)
      = Some (False, ?p)"
    unfolding canon by (rule ResolveSymbolicLink_no_match) (simp add: devs')
  have "ResolvePath sample_utf8 long_first () ?p
      = Some (dev_ResolvePath (devices long_first ! 0) ()
                (drop (length (mount_path (devices long_first ! 0))) ?p))"
    by (rule ResolvePath_first_registered [OF link', THEN conjunct1, rule_format, of 0])
      (simp_all add: devs' tagged_device_def)
  then have other: "ResolvePath sample_utf8 long_first () ?p
      = Some (Some (''d:'' @ CHR 0x5C # ''sub'', CHR 0x5C # ''x''))"
    by (simp add: devs' tagged_device_def)
  from link [of ?p] second first other none show ?thesis
    by blast
qed

subsection \<open>CreatePath\<close>

text \<open>
  The loop from index \<open>i\<close> on is the walk over the parts from \<open>i\<close> up to, and
  without, the last one, followed by the creation of the last part.
\<close>

lemma CreatePath_loop_walk_aux:
  "segs = take (length path_parts - 1 - i) (drop i path_parts) \<Longrightarrow>
   CreatePath_loop U K B V path_parts attrs i partial_path parent_entry s =
     (case CreatePath_walk U K B V segs partial_path parent_entry s of
        None \<Rightarrow> None
      | Some (None, s') \<Rightarrow> Some (None, s')
      | Some (Some parent, s') \<Rightarrow>
          Some (CreateEntry B s' parent (path_parts ! (length path_parts - 1)) attrs))"
proof (induction U K B V path_parts attrs i partial_path parent_entry s arbitrary: segs
    rule: CreatePath_loop.induct)
  case (1 U K B V path_parts attrs i partial_path parent_entry s)
  note unf = CreatePath_loop.simps [of U K B V path_parts attrs i partial_path parent_entry s]
  show ?case
  proof (cases "i < length path_parts - 1")
    case False
    with "1.prems" have "segs = []" by simp
    with False unf show ?thesis by simp
  next
    case True
    define rest where "rest = take (length path_parts - 1 - (i + 1)) (drop (i + 1) path_parts)"
    from True have "length path_parts - 1 - i = Suc (length path_parts - 1 - (i + 1))"
      and "drop i path_parts = path_parts ! i # drop (i + 1) path_parts"
      by (simp_all add: Cons_nth_drop_Suc)
    with "1.prems" have segs: "segs = path_parts ! i # rest"
      unfolding rest_def by (simp only: take_Suc_Cons)
    let ?pp = "join_guest_paths U partial_path (path_parts ! i)"
    show ?thesis
    proof (cases "ResolvePath U V s ?pp")
      case None
      with True unf show ?thesis
        by (simp add: segs)
    next
      case (Some child_entry)
      note res = this
      note IH = "1.IH" [OF True refl res _ refl rest_def]
      show ?thesis
      proof (cases child_entry)
        case (Some c)
        have "CreatePath_loop U K B V path_parts attrs (i + 1) ?pp c s =
          (case CreatePath_walk U K B V rest ?pp c s of
             None \<Rightarrow> None
           | Some (None, s') \<Rightarrow> Some (None, s')
           | Some (Some parent, s') \<Rightarrow>
               Some (CreateEntry B s' parent (path_parts ! (length path_parts - 1)) attrs))"
          by (rule IH) (simp add: Some)
        with True unf res Some show ?thesis
          by (simp add: segs)
      next
        case None
        obtain made s' where made:
          "CreateEntry B s parent_entry (path_parts ! i) (kFileAttributeDirectory K) = (made, s')"
          by (cases "CreateEntry B s parent_entry (path_parts ! i) (kFileAttributeDirectory K)")
        show ?thesis
        proof (cases made)
          case None
          with True unf res \<open>child_entry = None\<close> made
          show ?thesis
            by (simp add: segs)
        next
          case (Some c)
          have "CreatePath_loop U K B V path_parts attrs (i + 1) ?pp c s' =
            (case CreatePath_walk U K B V rest ?pp c s' of
               None \<Rightarrow> None
             | Some (None, s') \<Rightarrow> Some (None, s')
             | Some (Some parent, s') \<Rightarrow>
                 Some (CreateEntry B s' parent (path_parts ! (length path_parts - 1)) attrs))"
            by (rule IH) (simp add: Some made \<open>child_entry = None\<close>)
          with True unf res \<open>child_entry = None\<close> made Some
          show ?thesis
            by (simp add: segs)
        qed
      qed
    qed
  qed
qed

lemmas CreatePath_loop_walk = CreatePath_loop_walk_aux [OF refl]

text \<open>
  Claim C8. \<open>CreatePath\<close> does what the specification says of it: it returns null for
  a path without segments or with a first segment that does not resolve, walks the
  remaining segments but the last, creating as a directory each one that does not
  resolve, returns null as soon as a creation is refused, and finally creates the
  last segment under the current parent with the attributes of the caller.
\<close>

theorem CreatePath_refines_spec:
  "CreatePath U K B V s path attrs = CreatePath_spec U K B V s path attrs"
proof (cases "split_path U path")
  case Nil
  then show ?thesis
    by (simp add: CreatePath_def CreatePath_spec_def)
next
  case (Cons first remaining)
  have segs: "take (length (first # remaining) - 1 - 1) (drop 1 (first # remaining))
      = butlast remaining"
    by (simp add: butlast_conv_take)
  have lst: "(first # remaining) ! (length (first # remaining) - 1) = last (first # remaining)"
    by (simp add: last_conv_nth)
  show ?thesis
    unfolding CreatePath_def CreatePath_spec_def Cons Let_def
    by (simp only: CreatePath_loop_walk segs lst nth_Cons_0 list.case list.distinct if_False
        split: option.splits)
qed

text \<open>
  The theorem at the sample world: the path \<open>d:\x\y\z\<close> is created with the two
  missing directories above the file.
\<close>

theorem CreatePath_refines_spec_witness:
  "CreatePath sample_utf8 sample_constants sample_ops sample_vfs sample_state
     (''d:'' @ CHR 0x5C # ''x'' @ CHR 0x5C # ''y'' @ CHR 0x5C # ''z'') 0x80
   = Some (Some (CHR 0x5C # ''x'' @ CHR 0x5C # ''y'' @ CHR 0x5C # ''z''),
       sample_state\<lparr>entries := entries sample_state
         @ [(CHR 0x5C # ''x'', 0x10), (CHR 0x5C # ''x'' @ CHR 0x5C # ''y'', 0x10),
            (CHR 0x5C # ''x'' @ CHR 0x5C # ''y'' @ CHR 0x5C # ''z'', 0x80)]\<rparr>)"
  unfolding CreatePath_refines_spec
  by code_simp

subsection \<open>OpenFile\<close>

lemma OpenFile_checked:
  assumes "OpenFile_lookup U B V s root_entry path = Some (Some (parent_entry, found))"
    and "\<forall>e. found = Some e
           \<longrightarrow> \<not> (attributes B s e AND kFileAttributeDirectory K \<noteq> 0 \<and> is_non_directory)"
    and "(case found of None \<Rightarrow> (None, s) | Some e \<Rightarrow> OpenFile_uncache B s parent_entry e)
           = (entry, s1)"
  shows "OpenFile U K B V s root_entry path disp desired_access is_directory is_non_directory a0
    = OpenFile_dispose U K B V s1 path disp (cleanup_access K desired_access) is_directory
        parent_entry entry a0"
  using assms by (cases found) (auto simp: OpenFile_def)

lemma OpenFile_directory:
  assumes "OpenFile_lookup U B V s root_entry path = Some (Some (parent_entry, Some e))"
    and "attributes B s e AND kFileAttributeDirectory K \<noteq> 0" and "is_non_directory"
  shows "OpenFile U K B V s root_entry path disp desired_access is_directory is_non_directory a0
    = Some (X_STATUS_FILE_IS_A_DIRECTORY K, a0, None, s)"
  using assms by (simp add: OpenFile_def)

lemma OpenFile_uncache_state:
  "OpenFile_uncache B s parent_entry e = (Some e', s1) \<Longrightarrow> e' = e \<and> s1 = s"
  by (auto simp: OpenFile_uncache_def Let_def split: option.splits if_splits)

lemma OpenFile_dispose_must_exist:
  "disp = kOpen \<or> disp = kOverwrite \<Longrightarrow>
   OpenFile_dispose U K B V s path disp access is_directory parent_entry None a0
     = Some (X_STATUS_NO_SUCH_FILE K, kDoesNotExist, None, s)"
  by (auto simp: OpenFile_dispose_def)

lemma OpenFile_dispose_collision:
  "OpenFile_dispose U K B V s path kCreate access is_directory parent_entry (Some e) a0
     = Some (X_STATUS_OBJECT_NAME_COLLISION K, kExists, None, s)"
  by (simp add: OpenFile_dispose_def)

lemma OpenFile_dispose_absent:
  "disp \<noteq> kOpen \<Longrightarrow> disp \<noteq> kOverwrite \<Longrightarrow>
   OpenFile_dispose U K B V s path disp access is_directory parent_entry None a0
     = OpenFile_create U K B V s path is_directory
         (OpenFile_permissions K B s parent_entry None access) kCreated"
  by (simp add: OpenFile_dispose_def)

lemma OpenFile_dispose_open:
  "disp = kOpen \<or> disp = kOpenIf \<Longrightarrow>
   OpenFile_dispose U K B V s path disp access is_directory parent_entry (Some e) a0
     = Some (OpenFile_open K B s e (OpenFile_permissions K B s parent_entry (Some e) access)
               kOpened)"
  by (auto simp: OpenFile_dispose_def)

lemma OpenFile_dispose_overwrite:
  "disp = kOverwrite \<or> disp = kOverwriteIf \<Longrightarrow>
   OpenFile_dispose U K B V s path disp access is_directory parent_entry (Some e) a0
     = (case Delete B s e of
          (False, s') \<Rightarrow> Some (X_STATUS_ACCESS_DENIED K, a0, None, s')
        | (True, s') \<Rightarrow>
            OpenFile_create U K B V s' path is_directory
              (OpenFile_permissions K B s parent_entry (Some e) access) kOverwritten)"
  by (auto simp: OpenFile_dispose_def)

lemma OpenFile_dispose_supersede:
  "OpenFile_dispose U K B V s path kSuperscede access is_directory parent_entry (Some e) a0
     = (case Delete B s e of
          (False, s') \<Rightarrow> Some (X_STATUS_ACCESS_DENIED K, a0, None, s')
        | (True, s') \<Rightarrow>
            OpenFile_create U K B V s' path is_directory
              (OpenFile_permissions K B s parent_entry (Some e) access) kSuperseded)"
  by (auto simp: OpenFile_dispose_def)

text \<open>
  Claim C1, as the code has it. Let the lookup of the path succeed with the parent
  and the entry \<open>found\<close>, let \<open>found\<close> pass the check against \<open>is_non_directory\<close>, and
  let \<open>entry\<close> be what is left of it after the check against the host (state \<open>s1\<close>);
  \<open>access\<close> is the requested access after the permission check. Then, by disposition
  and existence:
  \<^item> Open or Overwrite, entry absent: failure NoSuchFile, action DoesNotExist;
  \<^item> Create, entry present: failure NameCollision, action Exists;
  \<^item> entry absent, any other disposition: the entry is created by \<open>CreatePath\<close> and
    opened, with action Created;
  \<^item> Open or OpenIf, entry present: the entry is opened in the unchanged state, with
    action Opened;
  \<^item> Overwrite or OverwriteIf, entry present: the entry is deleted (failure
    AccessDenied with the action not stored if that is refused), created again and
    opened, with action Overwritten;
  \<^item> Supersede, entry present: the same with action Superseded.
  Where an entry is created and opened, a refused creation is the failure
  AccessDenied with the action of the row; where an entry is opened, the status is
  that of the entry's own \<open>Open\<close>, and the action is that of the row if this status is
  no failure and DoesNotExist if it is.
\<close>

theorem OpenFile_disposition_table:
  assumes lookup: "OpenFile_lookup U B V s root_entry path = Some (Some (parent_entry, found))"
    and type_ok: "\<forall>e. found = Some e
           \<longrightarrow> \<not> (attributes B s e AND kFileAttributeDirectory K \<noteq> 0 \<and> is_non_directory)"
    and checked: "(case found of None \<Rightarrow> (None, s) | Some e \<Rightarrow> OpenFile_uncache B s parent_entry e)
           = (entry, s1)"
    and access: "access = OpenFile_permissions K B s1 parent_entry entry
                            (cleanup_access K desired_access)"
    and call: "result = OpenFile U K B V s root_entry path disp desired_access is_directory
                          is_non_directory a0"
  shows "(entry = None \<and> (disp = kOpen \<or> disp = kOverwrite)
            \<longrightarrow> result = Some (X_STATUS_NO_SUCH_FILE K, kDoesNotExist, None, s1))
       \<and> (entry \<noteq> None \<and> disp = kCreate
            \<longrightarrow> result = Some (X_STATUS_OBJECT_NAME_COLLISION K, kExists, None, s1))
       \<and> (entry = None \<and> disp \<noteq> kOpen \<and> disp \<noteq> kOverwrite
            \<longrightarrow> result = OpenFile_create U K B V s1 path is_directory access kCreated)
       \<and> (\<forall>e. entry = Some e \<and> (disp = kOpen \<or> disp = kOpenIf)
            \<longrightarrow> s1 = s \<and> result = Some (OpenFile_open K B s e access kOpened))
       \<and> (\<forall>e. entry = Some e \<and> (disp = kOverwrite \<or> disp = kOverwriteIf)
            \<longrightarrow> result =
                  (case Delete B s1 e of
                     (False, s2) \<Rightarrow> Some (X_STATUS_ACCESS_DENIED K, a0, None, s2)
                   | (True, s2) \<Rightarrow>
                       OpenFile_create U K B V s2 path is_directory access kOverwritten))
       \<and> (\<forall>e. entry = Some e \<and> disp = kSuperscede
            \<longrightarrow> result =
                  (case Delete B s1 e of
                     (False, s2) \<Rightarrow> Some (X_STATUS_ACCESS_DENIED K, a0, None, s2)
                   | (True, s2) \<Rightarrow>
                       OpenFile_create U K B V s2 path is_directory access kSuperseded))
       \<and> (\<forall>s' e action.
            OpenFile_create U K B V s' path is_directory access action =
              (case CreatePath U K B V s' path
                      (if \<not> is_directory then kFileAttributeNormal K
                       else kFileAttributeDirectory K) of
                 None \<Rightarrow> None
               | Some (None, s2) \<Rightarrow> Some (X_STATUS_ACCESS_DENIED K, action, None, s2)
               | Some (Some e, s2) \<Rightarrow> Some (OpenFile_open K B s2 e access action))
            \<and> OpenFile_open K B s' e access action =
              (case Open B s' e access of
                 ((status, file), s2) \<Rightarrow>
                   (status, if XFAILED K status then kDoesNotExist else action, file, s2)))"
proof -
  have r: "result = OpenFile_dispose U K B V s1 path disp (cleanup_access K desired_access)
      is_directory parent_entry entry a0"
    unfolding call using lookup type_ok checked by (rule OpenFile_checked)
  have same: "s1 = s" if "entry = Some e" for e
    using checked that by (cases found) (auto dest: OpenFile_uncache_state)
  have row1: "entry = None \<and> (disp = kOpen \<or> disp = kOverwrite)
      \<longrightarrow> result = Some (X_STATUS_NO_SUCH_FILE K, kDoesNotExist, None, s1)"
    unfolding r by (auto simp: OpenFile_dispose_must_exist)
  have row2: "entry \<noteq> None \<and> disp = kCreate
      \<longrightarrow> result = Some (X_STATUS_OBJECT_NAME_COLLISION K, kExists, None, s1)"
    unfolding r by (auto simp: OpenFile_dispose_collision)
  have row3: "entry = None \<and> disp \<noteq> kOpen \<and> disp \<noteq> kOverwrite
      \<longrightarrow> result = OpenFile_create U K B V s1 path is_directory access kCreated"
    unfolding r access by (auto simp: OpenFile_dispose_absent)
  have row4: "\<forall>e. entry = Some e \<and> (disp = kOpen \<or> disp = kOpenIf)
      \<longrightarrow> s1 = s \<and> result = Some (OpenFile_open K B s e access kOpened)"
    unfolding r access using same by (auto simp: OpenFile_dispose_open)
  have row5: "\<forall>e. entry = Some e \<and> (disp = kOverwrite \<or> disp = kOverwriteIf)
      \<longrightarrow> result =
            (case Delete B s1 e of
               (False, s2) \<Rightarrow> Some (X_STATUS_ACCESS_DENIED K, a0, None, s2)
             | (True, s2) \<Rightarrow>
                 OpenFile_create U K B V s2 path is_directory access kOverwritten)"
    unfolding r access by (auto simp: OpenFile_dispose_overwrite)
  have row6: "\<forall>e. entry = Some e \<and> disp = kSuperscede
      \<longrightarrow> result =
            (case Delete B s1 e of
               (False, s2) \<Rightarrow> Some (X_STATUS_ACCESS_DENIED K, a0, None, s2)
             | (True, s2) \<Rightarrow>
                 OpenFile_create U K B V s2 path is_directory access kSuperseded)"
    unfolding r access by (auto simp: OpenFile_dispose_supersede)
  have steps: "\<forall>s' e action.
      OpenFile_create U K B V s' path is_directory access action =
        (case CreatePath U K B V s' path
                (if \<not> is_directory then kFileAttributeNormal K
                 else kFileAttributeDirectory K) of
           None \<Rightarrow> None
         | Some (None, s2) \<Rightarrow> Some (X_STATUS_ACCESS_DENIED K, action, None, s2)
         | Some (Some e, s2) \<Rightarrow> Some (OpenFile_open K B s2 e access action))
      \<and> OpenFile_open K B s' e access action =
        (case Open B s' e access of
           ((status, file), s2) \<Rightarrow>
             (status, if XFAILED K status then kDoesNotExist else action, file, s2))"
    by (simp add: OpenFile_create_def OpenFile_open_def)
  from row1 row2 row3 row4 row5 row6 steps show ?thesis
    by (intro conjI)
qed


text \<open>
  The theorem at the sample world, for the existing file \<open>d:\a\<close>: opened with
  disposition Open, and refused with disposition Create.
\<close>

theorem OpenFile_disposition_table_witness:
  "OpenFile_lookup sample_utf8 sample_ops sample_vfs sample_state None (''d:'' @ CHR 0x5C # ''a'')
     = Some (Some (Some [], Some (CHR 0x5C # ''a'')))
   \<and> OpenFile sample_utf8 sample_constants sample_ops sample_vfs sample_state None
       (''d:'' @ CHR 0x5C # ''a'') kOpen 0x80000000 False False kExists
     = Some (0, kOpened, Some 0x80000001, sample_state)
   \<and> OpenFile sample_utf8 sample_constants sample_ops sample_vfs sample_state None
       (''d:'' @ CHR 0x5C # ''a'') kCreate 0x80000000 False False kOpened
     = Some (0xC0000035, kExists, None, sample_state)"
proof -
  let ?p = "''d:'' @ CHR 0x5C # ''a''" and ?e = "CHR 0x5C # ''a''"
  have lookup: "OpenFile_lookup sample_utf8 sample_ops sample_vfs sample_state None ?p
      = Some (Some (Some [], Some ?e))"
    by code_simp
  have type_ok: "\<forall>e. Some ?e = Some e \<longrightarrow>
      \<not> (attributes sample_ops sample_state e AND kFileAttributeDirectory sample_constants \<noteq> 0
          \<and> False)"
    by simp
  have checked: "(case Some ?e of None \<Rightarrow> (None, sample_state)
      | Some e \<Rightarrow> OpenFile_uncache sample_ops sample_state (Some []) e) = (Some ?e, sample_state)"
    by (simp add: OpenFile_uncache_def sample_ops_def)
  have access: "(0x80000001 :: 32 word) = OpenFile_permissions sample_constants sample_ops
      sample_state (Some []) (Some ?e) (cleanup_access sample_constants 0x80000000)"
    by code_simp
  have opened: "OpenFile_open sample_constants sample_ops sample_state ?e 0x80000001 kOpened
      = (0, kOpened, Some 0x80000001, sample_state)"
    by code_simp
  note T = OpenFile_disposition_table [OF lookup type_ok checked access refl]
  from T [where disp = kOpen and ?a0.0 = kExists and is_directory = False] opened
  have r1: "OpenFile sample_utf8 sample_constants sample_ops sample_vfs sample_state None
       ?p kOpen 0x80000000 False False kExists = Some (0, kOpened, Some 0x80000001, sample_state)"
    by simp
  from T [where disp = kCreate and ?a0.0 = kOpened and is_directory = False]
  have r2: "OpenFile sample_utf8 sample_constants sample_ops sample_vfs sample_state None
       ?p kCreate 0x80000000 False False kOpened = Some (0xC0000035, kExists, None, sample_state)"
    by (simp add: sample_constants_def)
  from lookup r1 r2 show ?thesis by blast
qed

text \<open>
  Claim C1, as the specification words it, fails: the entry \<open>d:\busy\<close> is present and
  the disposition is Open, but the entry cannot be opened; the call fails with the
  status of the entry's \<open>Open\<close> and reports DoesNotExist, not Opened.
\<close>

theorem OpenFile_open_failure_counterexample:
  "OpenFile_lookup sample_utf8 sample_ops sample_vfs sample_state None
       (''d:'' @ CHR 0x5C # ''busy'')
     = Some (Some (Some [], Some (CHR 0x5C # ''busy'')))
   \<and> OpenFile sample_utf8 sample_constants sample_ops sample_vfs sample_state None
       (''d:'' @ CHR 0x5C # ''busy'') kOpen 0x80000000 False False kExists
     = Some (0xC0000043, kDoesNotExist, None, sample_state)"
  by code_simp

lemma OpenFile_create_action:
  "OpenFile_create U K B V s path is_directory access action = Some (st, act, f, s')
     \<Longrightarrow> act = action \<or> act = kDoesNotExist"
  by (auto simp: OpenFile_create_def OpenFile_open_def split: option.splits prod.splits if_splits)

lemma OpenFile_dispose_frame:
  assumes "OpenFile_dispose U K B V s path disp access is_directory parent_entry entry a0
      = Some (st, act, f, s')"
  shows "(\<forall>a0'. OpenFile_dispose U K B V s path disp access is_directory parent_entry entry a0'
            = Some (st, act, f, s'))
         \<or> ((\<forall>a0'. OpenFile_dispose U K B V s path disp access is_directory parent_entry entry
                  a0' = Some (st, a0', f, s'))
            \<and> act = a0 \<and> f = None \<and> st = X_STATUS_ACCESS_DENIED K
            \<and> (\<exists>e. entry = Some e
                  \<and> (disp = kSuperscede \<or> disp = kOverwrite \<or> disp = kOverwriteIf)
                  \<and> Delete B s e = (False, s')))"
proof (cases entry)
  case None
  with assms show ?thesis
    by (auto simp: OpenFile_dispose_def split: if_splits)
next
  case (Some e)
  obtain ok s2 where del: "Delete B s e = (ok, s2)"
    by (cases "Delete B s e")
  from assms Some del show ?thesis
    by (cases disp; cases ok) (auto simp: OpenFile_dispose_def)
qed

lemma OpenFile_delete_refused:
  assumes "OpenFile_lookup U B V s root_entry path = Some (Some (parent_entry, Some e))"
    and "\<not> (attributes B s e AND kFileAttributeDirectory K \<noteq> 0 \<and> is_non_directory)"
    and "fst (OpenFile_uncache B s parent_entry e) \<noteq> None"
    and "disp = kSuperscede \<or> disp = kOverwrite \<or> disp = kOverwriteIf"
    and "Delete B s e = (False, s')"
  shows "OpenFile U K B V s root_entry path disp desired_access is_directory is_non_directory a0
    = Some (X_STATUS_ACCESS_DENIED K, a0, None, s')"
proof -
  from assms(3) obtain e' s1 where kept: "OpenFile_uncache B s parent_entry e = (Some e', s1)"
    by (cases "OpenFile_uncache B s parent_entry e") auto
  then have same: "e' = e" "s1 = s"
    by (auto dest: OpenFile_uncache_state)
  from assms(2) have ok: "\<forall>x. Some e = Some x
      \<longrightarrow> \<not> (attributes B s x AND kFileAttributeDirectory K \<noteq> 0 \<and> is_non_directory)"
    by simp
  have checked: "(case Some e of None \<Rightarrow> (None, s)
      | Some x \<Rightarrow> OpenFile_uncache B s parent_entry x) = (Some e, s)"
    using kept same by simp
  show ?thesis
    unfolding OpenFile_checked [OF assms(1) ok checked]
    using assms(4,5)
    by (auto simp: OpenFile_dispose_overwrite OpenFile_dispose_supersede)
qed

lemma OpenFile_frame:
  assumes "OpenFile U K B V s root_entry path disp desired_access is_directory is_non_directory a0
      = Some (st, act, f, s')"
  shows "(\<forall>a0'. OpenFile U K B V s root_entry path disp desired_access is_directory
              is_non_directory a0' = Some (st, act, f, s'))
         \<or> ((\<forall>a0'. OpenFile U K B V s root_entry path disp desired_access is_directory
                  is_non_directory a0' = Some (st, a0', f, s'))
            \<and> act = a0 \<and> f = None
            \<and> (\<exists>parent_entry e.
                  OpenFile_lookup U B V s root_entry path = Some (Some (parent_entry, Some e))
                  \<and> (if attributes B s e AND kFileAttributeDirectory K \<noteq> 0 \<and> is_non_directory
                      then st = X_STATUS_FILE_IS_A_DIRECTORY K \<and> s' = s
                      else st = X_STATUS_ACCESS_DENIED K
                        \<and> fst (OpenFile_uncache B s parent_entry e) \<noteq> None
                        \<and> (disp = kSuperscede \<or> disp = kOverwrite \<or> disp = kOverwriteIf)
                        \<and> Delete B s e = (False, s'))))"
proof (cases "OpenFile_lookup U B V s root_entry path")
  case None
  with assms show ?thesis by (simp add: OpenFile_def)
next
  case (Some looked)
  show ?thesis
  proof (cases looked)
    case None
    with Some assms show ?thesis by (auto simp: OpenFile_def)
  next
    case (Some pair)
    obtain parent_entry found where pair: "pair = (parent_entry, found)"
      by (cases pair)
    note lookup = \<open>OpenFile_lookup U B V s root_entry path = Some looked\<close>
      [unfolded Some pair]
    show ?thesis
    proof (cases "\<exists>e. found = Some e
        \<and> attributes B s e AND kFileAttributeDirectory K \<noteq> 0 \<and> is_non_directory")
      case True
      then obtain e where e: "found = Some e"
          "attributes B s e AND kFileAttributeDirectory K \<noteq> 0" "is_non_directory"
        by blast
      note dir = OpenFile_directory [OF lookup [unfolded e(1)] e(2,3)]
      from assms have "st = X_STATUS_FILE_IS_A_DIRECTORY K" "act = a0" "f = None" "s' = s"
        unfolding dir by simp_all
      with dir lookup e show ?thesis
        by auto
    next
      case False
      obtain entry s1 where checked:
        "(case found of None \<Rightarrow> (None, s) | Some e \<Rightarrow> OpenFile_uncache B s parent_entry e)
           = (entry, s1)"
        by (cases "case found of None \<Rightarrow> (None, s) | Some e \<Rightarrow> OpenFile_uncache B s parent_entry e")
      from False have ok: "\<forall>e. found = Some e
           \<longrightarrow> \<not> (attributes B s e AND kFileAttributeDirectory K \<noteq> 0 \<and> is_non_directory)"
        by blast
      note eq = OpenFile_checked [OF lookup ok checked]
      from assms have d: "OpenFile_dispose U K B V s1 path disp (cleanup_access K desired_access)
          is_directory parent_entry entry a0 = Some (st, act, f, s')"
        unfolding eq .
      from OpenFile_dispose_frame [OF d] show ?thesis
      proof
        assume "\<forall>a0'. OpenFile_dispose U K B V s1 path disp (cleanup_access K desired_access)
            is_directory parent_entry entry a0' = Some (st, act, f, s')"
        then show ?thesis unfolding eq by blast
      next
        assume r: "(\<forall>a0'. OpenFile_dispose U K B V s1 path disp
              (cleanup_access K desired_access) is_directory parent_entry entry a0'
              = Some (st, a0', f, s'))
            \<and> act = a0 \<and> f = None \<and> st = X_STATUS_ACCESS_DENIED K
            \<and> (\<exists>e. entry = Some e
                  \<and> (disp = kSuperscede \<or> disp = kOverwrite \<or> disp = kOverwriteIf)
                  \<and> Delete B s1 e = (False, s'))"
        then obtain e where e: "entry = Some e" "Delete B s1 e = (False, s')"
            "disp = kSuperscede \<or> disp = kOverwrite \<or> disp = kOverwriteIf"
          by blast
        from checked e(1) have found: "found = Some e" and s1: "s1 = s"
          by (cases found; auto dest: OpenFile_uncache_state)+
        from checked found e(1) have kept: "fst (OpenFile_uncache B s parent_entry e) \<noteq> None"
          by simp
        from ok found have nd: "\<not> (attributes B s e AND kFileAttributeDirectory K \<noteq> 0
            \<and> is_non_directory)"
          by simp
        from r have all: "\<forall>a0'. OpenFile U K B V s root_entry path disp desired_access
            is_directory is_non_directory a0' = Some (st, a0', f, s')"
          unfolding eq by blast
        from r all lookup found kept nd e s1 show ?thesis
          by auto
      qed
    qed
  qed
qed

text \<open>
  Claim C10, as the code has it. When the entry that the lookup finds is a directory
  and \<open>is_non_directory\<close> is set, the call fails with IsADirectory and leaves the
  action of the caller, the state and \<open>out_file\<close> as they are. This is not the only
  path that leaves the action alone: the call also returns AccessDenied with the
  caller's action when the entry is present, the disposition is Supersede,
  Overwrite or OverwriteIf, and the entry's \<open>Delete\<close> is refused. These two are all:
  whenever the call returns, either it has stored an action (its result is the same
  for every value the caller may have had there), or the caller's value comes back
  and the call is on one of these two paths, the entry being a directory with
  \<open>is_non_directory\<close> set (status IsADirectory) or else present with its deletion
  refused (status AccessDenied).
\<close>

theorem OpenFile_directory_keeps_action:
  "(OpenFile_lookup U B V s root_entry path = Some (Some (parent_entry, Some e))
      \<and> attributes B s e AND kFileAttributeDirectory K \<noteq> 0 \<and> is_non_directory
      \<longrightarrow> OpenFile U K B V s root_entry path disp desired_access is_directory
            is_non_directory a0
          = Some (X_STATUS_FILE_IS_A_DIRECTORY K, a0, None, s))
   \<and> (OpenFile_lookup U B V s root_entry path = Some (Some (parent_entry, Some e))
      \<and> \<not> (attributes B s e AND kFileAttributeDirectory K \<noteq> 0 \<and> is_non_directory)
      \<and> fst (OpenFile_uncache B s parent_entry e) \<noteq> None
      \<and> (disp = kSuperscede \<or> disp = kOverwrite \<or> disp = kOverwriteIf)
      \<and> Delete B s e = (False, s2)
      \<longrightarrow> OpenFile U K B V s root_entry path disp desired_access is_directory
            is_non_directory a0
          = Some (X_STATUS_ACCESS_DENIED K, a0, None, s2))
   \<and> (OpenFile U K B V s root_entry path disp desired_access is_directory is_non_directory a0
        = Some (st, act, f, s')
      \<longrightarrow> (\<forall>a0'. OpenFile U K B V s root_entry path disp desired_access is_directory
                   is_non_directory a0' = Some (st, act, f, s'))
          \<or> ((\<forall>a0'. OpenFile U K B V s root_entry path disp desired_access is_directory
                     is_non_directory a0' = Some (st, a0', f, s'))
              \<and> act = a0 \<and> f = None
              \<and> (\<exists>parent_entry e.
                    OpenFile_lookup U B V s root_entry path
                      = Some (Some (parent_entry, Some e))
                    \<and> (if attributes B s e AND kFileAttributeDirectory K \<noteq> 0
                           \<and> is_non_directory
                        then st = X_STATUS_FILE_IS_A_DIRECTORY K \<and> s' = s
                        else st = X_STATUS_ACCESS_DENIED K
                          \<and> fst (OpenFile_uncache B s parent_entry e) \<noteq> None
                          \<and> (disp = kSuperscede \<or> disp = kOverwrite \<or> disp = kOverwriteIf)
                          \<and> Delete B s e = (False, s')))))"
proof (intro conjI impI)
  assume "OpenFile_lookup U B V s root_entry path = Some (Some (parent_entry, Some e))
      \<and> attributes B s e AND kFileAttributeDirectory K \<noteq> 0 \<and> is_non_directory"
  then show "OpenFile U K B V s root_entry path disp desired_access is_directory
      is_non_directory a0 = Some (X_STATUS_FILE_IS_A_DIRECTORY K, a0, None, s)"
    by (simp add: OpenFile_directory)
next
  assume "OpenFile_lookup U B V s root_entry path = Some (Some (parent_entry, Some e))
      \<and> \<not> (attributes B s e AND kFileAttributeDirectory K \<noteq> 0 \<and> is_non_directory)
      \<and> fst (OpenFile_uncache B s parent_entry e) \<noteq> None
      \<and> (disp = kSuperscede \<or> disp = kOverwrite \<or> disp = kOverwriteIf)
      \<and> Delete B s e = (False, s2)"
  then show "OpenFile U K B V s root_entry path disp desired_access is_directory
      is_non_directory a0 = Some (X_STATUS_ACCESS_DENIED K, a0, None, s2)"
    by (intro OpenFile_delete_refused) blast+
next
  assume "OpenFile U K B V s root_entry path disp desired_access is_directory
      is_non_directory a0 = Some (st, act, f, s')"
  then show "(\<forall>a0'. OpenFile U K B V s root_entry path disp desired_access is_directory
                   is_non_directory a0' = Some (st, act, f, s'))
          \<or> ((\<forall>a0'. OpenFile U K B V s root_entry path disp desired_access is_directory
                     is_non_directory a0' = Some (st, a0', f, s'))
              \<and> act = a0 \<and> f = None
              \<and> (\<exists>parent_entry e.
                    OpenFile_lookup U B V s root_entry path
                      = Some (Some (parent_entry, Some e))
                    \<and> (if attributes B s e AND kFileAttributeDirectory K \<noteq> 0
                           \<and> is_non_directory
                        then st = X_STATUS_FILE_IS_A_DIRECTORY K \<and> s' = s
                        else st = X_STATUS_ACCESS_DENIED K
                          \<and> fst (OpenFile_uncache B s parent_entry e) \<noteq> None
                          \<and> (disp = kSuperscede \<or> disp = kOverwrite \<or> disp = kOverwriteIf)
                          \<and> Delete B s e = (False, s'))))"
    by (rule OpenFile_frame)
qed

text \<open>
  The theorem at the sample world: \<open>d:\dir\<close> is a directory, and a call with
  \<open>is_non_directory\<close> set returns IsADirectory with the caller's action; the deletion
  of the read-only file \<open>d:\ro\<close> is refused, and a call that would overwrite it
  returns AccessDenied with the caller's action.
\<close>

theorem OpenFile_directory_keeps_action_witness:
  "OpenFile_lookup sample_utf8 sample_ops sample_vfs sample_state None
       (''d:'' @ CHR 0x5C # ''dir'')
     = Some (Some (Some [], Some (CHR 0x5C # ''dir'')))
   \<and> attributes sample_ops sample_state (CHR 0x5C # ''dir'')
         AND kFileAttributeDirectory sample_constants \<noteq> 0
   \<and> OpenFile sample_utf8 sample_constants sample_ops sample_vfs sample_state None
       (''d:'' @ CHR 0x5C # ''dir'') kOpenIf 0x80000000 False True kExists
     = Some (0xC00000BA, kExists, None, sample_state)
   \<and> Delete sample_ops sample_state (CHR 0x5C # ''ro'') = (False, sample_state)
   \<and> OpenFile sample_utf8 sample_constants sample_ops sample_vfs sample_state None
       (''d:'' @ CHR 0x5C # ''ro'') kOverwriteIf 0x80000000 False False kCreated
     = Some (0xC0000022, kCreated, None, sample_state)"
proof -
  let ?p = "''d:'' @ CHR 0x5C # ''dir''" and ?e = "CHR 0x5C # ''dir''"
  let ?q = "''d:'' @ CHR 0x5C # ''ro''" and ?r = "CHR 0x5C # ''ro''"
  have lookup: "OpenFile_lookup sample_utf8 sample_ops sample_vfs sample_state None ?p
      = Some (Some (Some [], Some ?e))"
    by code_simp
  have dir: "attributes sample_ops sample_state ?e
      AND kFileAttributeDirectory sample_constants \<noteq> 0"
    by code_simp
  from OpenFile_directory_keeps_action [where U = sample_utf8 and K = sample_constants
      and B = sample_ops and V = sample_vfs and s = sample_state and root_entry = None
      and path = ?p and parent_entry = "Some []" and e = ?e and is_non_directory = True
      and disp = kOpenIf and desired_access = "0x80000000" and is_directory = False
      and ?a0.0 = kExists, THEN conjunct1] lookup dir
  have "OpenFile sample_utf8 sample_constants sample_ops sample_vfs sample_state None
       ?p kOpenIf 0x80000000 False True kExists
     = Some (X_STATUS_FILE_IS_A_DIRECTORY sample_constants, kExists, None, sample_state)"
    by blast
  then have first: "OpenFile sample_utf8 sample_constants sample_ops sample_vfs sample_state
       None ?p kOpenIf 0x80000000 False True kExists
     = Some (0xC00000BA, kExists, None, sample_state)"
    by (simp add: sample_constants_def)
  have lookup': "OpenFile_lookup sample_utf8 sample_ops sample_vfs sample_state None ?q
      = Some (Some (Some [], Some ?r))"
    by code_simp
  have isfile: "\<not> (attributes sample_ops sample_state ?r
      AND kFileAttributeDirectory sample_constants \<noteq> 0 \<and> False)"
    by simp
  have kept: "fst (OpenFile_uncache sample_ops sample_state (Some []) ?r) \<noteq> None"
    by (simp add: OpenFile_uncache_def sample_ops_def)
  have refused: "Delete sample_ops sample_state ?r = (False, sample_state)"
    by code_simp
  from OpenFile_directory_keeps_action [where U = sample_utf8 and K = sample_constants
      and B = sample_ops and V = sample_vfs and s = sample_state and root_entry = None
      and path = ?q and parent_entry = "Some []" and e = ?r and is_non_directory = False
      and disp = kOverwriteIf and desired_access = "0x80000000" and is_directory = False
      and ?a0.0 = kCreated and ?s2.0 = sample_state, THEN conjunct2, THEN conjunct1]
    lookup' isfile kept refused
  have "OpenFile sample_utf8 sample_constants sample_ops sample_vfs sample_state None
       ?q kOverwriteIf 0x80000000 False False kCreated
     = Some (X_STATUS_ACCESS_DENIED sample_constants, kCreated, None, sample_state)"
    by blast
  then have second: "OpenFile sample_utf8 sample_constants sample_ops sample_vfs sample_state
       None ?q kOverwriteIf 0x80000000 False False kCreated
     = Some (0xC0000022, kCreated, None, sample_state)"
    by (simp add: sample_constants_def)
  from lookup dir first refused second show ?thesis
    by (intro conjI)
qed

text \<open>
  Claim C10, as it is worded, fails in its last part: superseding the read-only file
  \<open>d:\ro\<close> fails with AccessDenied because the deletion is refused, and this failure
  path does not store an action either: the caller's value comes back, whichever it
  was.
\<close>

theorem OpenFile_delete_refused_counterexample:
  "OpenFile sample_utf8 sample_constants sample_ops sample_vfs sample_state None
       (''d:'' @ CHR 0x5C # ''ro'') kSuperscede 0x80000000 False False kExists
     = Some (0xC0000022, kExists, None, sample_state)
   \<and> OpenFile sample_utf8 sample_constants sample_ops sample_vfs sample_state None
       (''d:'' @ CHR 0x5C # ''ro'') kSuperscede 0x80000000 False False kOpened
     = Some (0xC0000022, kOpened, None, sample_state)"
  by code_simp

text \<open>
  Claim C9. When the disposition is Create and the entry that the lookup finds
  passes the check against \<open>is_non_directory\<close> and is still there after the check
  against the host, the call fails with NameCollision and action Exists, stores no
  file and returns the state it was called in: nothing is deleted, replaced or
  created. Moreover a call with disposition Create that comes back with the action
  Exists, the caller's value being another one, is such a call.
\<close>

theorem OpenFile_create_collision:
  "(OpenFile_lookup U B V s root_entry path = Some (Some (parent_entry, Some e))
      \<and> \<not> (attributes B s e AND kFileAttributeDirectory K \<noteq> 0 \<and> is_non_directory)
      \<and> fst (OpenFile_uncache B s parent_entry e) \<noteq> None
      \<longrightarrow> OpenFile U K B V s root_entry path kCreate desired_access is_directory
            is_non_directory a0
          = Some (X_STATUS_OBJECT_NAME_COLLISION K, kExists, None, s))
   \<and> (OpenFile U K B V s root_entry path kCreate desired_access is_directory is_non_directory a0
        = Some (st, kExists, f, s') \<and> a0 \<noteq> kExists
      \<longrightarrow> st = X_STATUS_OBJECT_NAME_COLLISION K \<and> f = None \<and> s' = s)"
proof (rule conjI; rule impI)
  assume h: "OpenFile_lookup U B V s root_entry path = Some (Some (parent_entry, Some e))
      \<and> \<not> (attributes B s e AND kFileAttributeDirectory K \<noteq> 0 \<and> is_non_directory)
      \<and> fst (OpenFile_uncache B s parent_entry e) \<noteq> None"
  then obtain e' s1 where kept: "OpenFile_uncache B s parent_entry e = (Some e', s1)"
    by (cases "OpenFile_uncache B s parent_entry e") auto
  then have "s1 = s"
    by (auto dest: OpenFile_uncache_state)
  with h kept show "OpenFile U K B V s root_entry path kCreate desired_access is_directory
        is_non_directory a0 = Some (X_STATUS_OBJECT_NAME_COLLISION K, kExists, None, s)"
    by (auto simp: OpenFile_def OpenFile_dispose_collision)
next
  assume r: "OpenFile U K B V s root_entry path kCreate desired_access is_directory
      is_non_directory a0 = Some (st, kExists, f, s') \<and> a0 \<noteq> kExists"
  have dispose: "st = X_STATUS_OBJECT_NAME_COLLISION K \<and> f = None \<and> s' = s1"
    if "OpenFile_dispose U K B V s1 path kCreate access is_directory parent_entry entry a0
        = Some (st, kExists, f, s')" for s1 access parent_entry entry
  proof (cases entry)
    case None
    with that show ?thesis
      by (auto simp: OpenFile_dispose_def dest: OpenFile_create_action)
  next
    case (Some e)
    with that show ?thesis
      by (simp add: OpenFile_dispose_collision)
  qed
  show "st = X_STATUS_OBJECT_NAME_COLLISION K \<and> f = None \<and> s' = s"
  proof (cases "OpenFile_lookup U B V s root_entry path")
    case None
    with r show ?thesis by (simp add: OpenFile_def)
  next
    case (Some looked)
    show ?thesis
    proof (cases looked)
      case None
      with Some r show ?thesis by (simp add: OpenFile_def)
    next
      case (Some pair)
      obtain parent_entry found where pair: "pair = (parent_entry, found)"
        by (cases pair)
      note lookup = \<open>OpenFile_lookup U B V s root_entry path = Some looked\<close>
        [unfolded Some pair]
      show ?thesis
      proof (cases found)
        case None
        with lookup r have "OpenFile_dispose U K B V s path kCreate
            (cleanup_access K desired_access) is_directory parent_entry None a0
            = Some (st, kExists, f, s')"
          by (simp add: OpenFile_def)
        then show ?thesis
          by (rule dispose)
      next
        case (Some e)
        obtain entry s1 where u: "OpenFile_uncache B s parent_entry e = (entry, s1)"
          by (cases "OpenFile_uncache B s parent_entry e")
        from lookup Some r u
        have d: "OpenFile_dispose U K B V s1 path kCreate (cleanup_access K desired_access)
            is_directory parent_entry entry a0 = Some (st, kExists, f, s')"
          by (auto simp: OpenFile_def split: if_splits)
        from dispose [OF d] have res: "st = X_STATUS_OBJECT_NAME_COLLISION K" "f = None" "s' = s1"
          by simp_all
        have "entry \<noteq> None"
        proof
          assume "entry = None"
          with d r show False
            by (auto simp: OpenFile_dispose_def dest: OpenFile_create_action)
        qed
        with u have "s1 = s"
          by (auto dest: OpenFile_uncache_state)
        with res show ?thesis by simp
      qed
    qed
  qed
qed

text \<open>
  The theorem at the sample world: creating the existing file \<open>d:\a\<close> fails with
  NameCollision and leaves the world as it is.
\<close>

theorem OpenFile_create_collision_witness:
  "OpenFile_lookup sample_utf8 sample_ops sample_vfs sample_state None (''d:'' @ CHR 0x5C # ''a'')
     = Some (Some (Some [], Some (CHR 0x5C # ''a'')))
   \<and> fst (OpenFile_uncache sample_ops sample_state (Some []) (CHR 0x5C # ''a'')) \<noteq> None
   \<and> OpenFile sample_utf8 sample_constants sample_ops sample_vfs sample_state None
       (''d:'' @ CHR 0x5C # ''a'') kCreate 0x40000000 False True kOpened
     = Some (0xC0000035, kExists, None, sample_state)"
proof -
  let ?p = "''d:'' @ CHR 0x5C # ''a''" and ?e = "CHR 0x5C # ''a''"
  have lookup: "OpenFile_lookup sample_utf8 sample_ops sample_vfs sample_state None ?p
      = Some (Some (Some [], Some ?e))"
    by code_simp
  have isfile: "\<not> (attributes sample_ops sample_state ?e
      AND kFileAttributeDirectory sample_constants \<noteq> 0 \<and> True)"
    by code_simp
  have kept: "fst (OpenFile_uncache sample_ops sample_state (Some []) ?e) \<noteq> None"
    by (simp add: OpenFile_uncache_def sample_ops_def)
  from OpenFile_create_collision [where U = sample_utf8 and K = sample_constants
      and B = sample_ops and V = sample_vfs and s = sample_state and root_entry = None
      and path = ?p and parent_entry = "Some []" and e = ?e and is_non_directory = True
      and desired_access = "0x40000000" and is_directory = False
      and ?a0.0 = kOpened, THEN conjunct1] lookup isfile kept
  have "OpenFile sample_utf8 sample_constants sample_ops sample_vfs sample_state None
       ?p kCreate 0x40000000 False True kOpened
     = Some (X_STATUS_OBJECT_NAME_COLLISION sample_constants, kExists, None, sample_state)"
    by blast
  with lookup kept show ?thesis
    by (simp add: sample_constants_def)
qed


text \<open>
  None of the steps before the last one depends on how the entries are opened.
\<close>

lemma CreatePath_walk_Open:
  "CreatePath_walk U K (B\<lparr>Open := g\<rparr>) V segs partial_path parent s
     = CreatePath_walk U K B V segs partial_path parent s"
  by (induction segs arbitrary: partial_path parent s)
    (simp_all cong: option.case_cong prod.case_cong)

lemma CreatePath_Open:
  "CreatePath U K (B\<lparr>Open := g\<rparr>) V s path attrs = CreatePath U K B V s path attrs"
  by (simp add: CreatePath_def CreatePath_loop_walk CreatePath_walk_Open Let_def
      cong: option.case_cong prod.case_cong if_cong)

lemma OpenFile_lookup_Open:
  "OpenFile_lookup U (B\<lparr>Open := g\<rparr>) V s root_entry path = OpenFile_lookup U B V s root_entry path"
  by (simp add: OpenFile_lookup_def cong: option.case_cong if_cong)

lemma OpenFile_uncache_Open:
  "OpenFile_uncache (B\<lparr>Open := g\<rparr>) s parent_entry e = OpenFile_uncache B s parent_entry e"
  by (simp add: OpenFile_uncache_def cong: option.case_cong if_cong)

lemma OpenFile_permissions_Open:
  "OpenFile_permissions K (B\<lparr>Open := g\<rparr>) s parent_entry entry access
     = OpenFile_permissions K B s parent_entry entry access"
  by (simp add: OpenFile_permissions_def cong: option.case_cong if_cong)

lemma OpenFile_open_fixed:
  "OpenFile_open K (B\<lparr>Open := \<lambda>s e access. Open B s e ro\<rparr>) s e access action
     = OpenFile_open K B s e ro action"
  by (simp add: OpenFile_open_def)

lemma OpenFile_create_fixed:
  "OpenFile_create U K (B\<lparr>Open := \<lambda>s e access. Open B s e ro\<rparr>) V s path is_directory access
       action
     = OpenFile_create U K B V s path is_directory ro action"
  by (simp add: OpenFile_create_def CreatePath_Open OpenFile_open_fixed
      cong: option.case_cong prod.case_cong)

lemma OpenFile_dispose_fixed:
  assumes "OpenFile_permissions K B s parent_entry entry access = ro"
  shows "OpenFile_dispose U K (B\<lparr>Open := \<lambda>s e access. Open B s e ro\<rparr>) V s path disp access
       is_directory parent_entry entry a0
     = OpenFile_dispose U K B V s path disp access is_directory parent_entry entry a0"
  using assms
  by (simp add: OpenFile_dispose_def OpenFile_permissions_Open OpenFile_create_fixed
      OpenFile_open_fixed
      cong: option.case_cong prod.case_cong FileDisposition.case_cong bool.case_cong if_cong)

lemma OpenFile_permissions_downgrade:
  assumes "access AND kFileWriteData K \<noteq> 0 \<or> access AND kFileAppendData K \<noteq> 0"
    and "(\<exists>p. parent_entry = Some p \<and> is_read_only B s p)
         \<or> (\<exists>e. entry = Some e \<and> is_read_only B s e)"
  shows "OpenFile_permissions K B s parent_entry entry access
     = kGenericRead K OR kFileReadData K"
  using assms by (auto simp: OpenFile_permissions_def)

lemma OpenFile_fixed_access:
  assumes wants: "cleanup_access K desired_access AND kFileWriteData K \<noteq> 0
        \<or> cleanup_access K desired_access AND kFileAppendData K \<noteq> 0"
    and lookup: "OpenFile_lookup U B V s root_entry path = Some (Some (parent_entry, found))"
    and checked: "(case found of None \<Rightarrow> (None, s) | Some e \<Rightarrow> OpenFile_uncache B s parent_entry e)
        = (entry, s1)"
    and read_only: "(\<exists>p. parent_entry = Some p \<and> is_read_only B s1 p)
        \<or> (\<exists>e. entry = Some e \<and> is_read_only B s1 e)"
  shows "OpenFile U K B V s root_entry path disp desired_access is_directory is_non_directory a0
      = OpenFile U K (B\<lparr>Open := \<lambda>s e access. Open B s e (kGenericRead K OR kFileReadData K)\<rparr>)
          V s root_entry path disp desired_access is_directory is_non_directory a0
    \<and> (\<forall>e. entry = Some e
            \<and> \<not> (attributes B s e AND kFileAttributeDirectory K \<noteq> 0 \<and> is_non_directory)
            \<and> (disp = kOpen \<or> disp = kOpenIf)
          \<longrightarrow> OpenFile U K B V s root_entry path disp desired_access is_directory
                is_non_directory a0
              = Some (case Open B s e (kGenericRead K OR kFileReadData K) of
                        ((status, file), s2) \<Rightarrow>
                          (status, if XFAILED K status then kDoesNotExist else kOpened,
                           file, s2)))"
proof -
  let ?ro = "kGenericRead K OR kFileReadData K"
  let ?B = "B\<lparr>Open := \<lambda>s e access. Open B s e ?ro\<rparr>"
  have perm: "OpenFile_permissions K B s1 parent_entry entry (cleanup_access K desired_access)
      = ?ro"
    using wants read_only by (rule OpenFile_permissions_downgrade)
  have dispose: "OpenFile_dispose U K ?B V s1 path disp (cleanup_access K desired_access)
        is_directory parent_entry entry a0
      = OpenFile_dispose U K B V s1 path disp (cleanup_access K desired_access)
        is_directory parent_entry entry a0"
    using perm by (rule OpenFile_dispose_fixed)
  have eq: "OpenFile U K B V s root_entry path disp desired_access is_directory
        is_non_directory a0
      = OpenFile U K ?B V s root_entry path disp desired_access is_directory
        is_non_directory a0"
  proof (cases "\<exists>e. found = Some e
        \<and> attributes B s e AND kFileAttributeDirectory K \<noteq> 0 \<and> is_non_directory")
    case True
    with lookup show ?thesis
      by (auto simp: OpenFile_def OpenFile_lookup_Open)
  next
    case False
    then have ok: "\<forall>e. found = Some e
        \<longrightarrow> \<not> (attributes B s e AND kFileAttributeDirectory K \<noteq> 0 \<and> is_non_directory)"
      by blast
    have lookup': "OpenFile_lookup U ?B V s root_entry path = Some (Some (parent_entry, found))"
      using lookup by (simp only: OpenFile_lookup_Open)
    have ok': "\<forall>e. found = Some e
        \<longrightarrow> \<not> (attributes ?B s e AND kFileAttributeDirectory K \<noteq> 0 \<and> is_non_directory)"
      using ok by simp
    have checked': "(case found of None \<Rightarrow> (None, s)
        | Some e \<Rightarrow> OpenFile_uncache ?B s parent_entry e) = (entry, s1)"
      using checked by (simp only: OpenFile_uncache_Open)
    show ?thesis
      unfolding OpenFile_checked [OF lookup ok checked] OpenFile_checked [OF lookup' ok' checked']
      using dispose by simp
  qed
  have row: "OpenFile U K B V s root_entry path disp desired_access is_directory
        is_non_directory a0
      = Some (case Open B s e ?ro of
                ((status, file), s2) \<Rightarrow>
                  (status, if XFAILED K status then kDoesNotExist else kOpened, file, s2))"
    if e: "entry = Some e"
      and ok: "\<not> (attributes B s e AND kFileAttributeDirectory K \<noteq> 0 \<and> is_non_directory)"
      and disp: "disp = kOpen \<or> disp = kOpenIf" for e
  proof -
    from checked e have found: "found = Some e" and s1: "s1 = s"
      by (cases found; auto dest: OpenFile_uncache_state)+
    from ok found have ok': "\<forall>e. found = Some e
        \<longrightarrow> \<not> (attributes B s e AND kFileAttributeDirectory K \<noteq> 0 \<and> is_non_directory)"
      by simp
    show ?thesis
      unfolding OpenFile_checked [OF lookup ok' checked] e
      using disp perm e s1
      by (simp add: OpenFile_dispose_open OpenFile_open_def)
  qed
  from eq row show ?thesis by blast
qed

text \<open>
  Claim C4. Let the requested access, after the clean-up, include write or append
  data, and let the parent entry or the entry (as the check against the host left
  it) be read-only. Then the call is not refused for that; the access is replaced
  by generic-read plus read-data and the call goes on with it:
  \<^item> it gives the result it would give if the entry's \<open>Open\<close> were always invoked
    with that access, whatever access was asked for;
  \<^item> when the entry that was found passes the check against \<open>is_non_directory\<close>,
    the result is, row by row, that of the table of dispositions with every \<open>Open\<close>
    made with that access: the only failures before an \<open>Open\<close> are NoSuchFile (Open
    or Overwrite, entry absent), NameCollision (Create, entry present), and
    AccessDenied when the entry's \<open>Delete\<close> or \<open>CreatePath\<close> is refused; otherwise
    the entry, found or created, is opened with that access, and the status is the
    one its \<open>Open\<close> returns.
\<close>

theorem OpenFile_read_only_downgrade:
  assumes wants: "cleanup_access K desired_access AND kFileWriteData K \<noteq> 0
        \<or> cleanup_access K desired_access AND kFileAppendData K \<noteq> 0"
    and lookup: "OpenFile_lookup U B V s root_entry path = Some (Some (parent_entry, found))"
    and checked: "(case found of None \<Rightarrow> (None, s) | Some e \<Rightarrow> OpenFile_uncache B s parent_entry e)
        = (entry, s1)"
    and read_only: "(\<exists>p. parent_entry = Some p \<and> is_read_only B s1 p)
        \<or> (\<exists>e. entry = Some e \<and> is_read_only B s1 e)"
  shows "OpenFile U K B V s root_entry path disp desired_access is_directory is_non_directory a0
      = OpenFile U K (B\<lparr>Open := \<lambda>s e access. Open B s e (kGenericRead K OR kFileReadData K)\<rparr>)
          V s root_entry path disp desired_access is_directory is_non_directory a0
    \<and> (\<forall>e. entry = Some e
            \<and> \<not> (attributes B s e AND kFileAttributeDirectory K \<noteq> 0 \<and> is_non_directory)
            \<and> (disp = kOpen \<or> disp = kOpenIf)
          \<longrightarrow> OpenFile U K B V s root_entry path disp desired_access is_directory
                is_non_directory a0
              = Some (case Open B s e (kGenericRead K OR kFileReadData K) of
                        ((status, file), s2) \<Rightarrow>
                          (status, if XFAILED K status then kDoesNotExist else kOpened,
                           file, s2)))
    \<and> (let result = OpenFile U K B V s root_entry path disp desired_access is_directory
                       is_non_directory a0;
            opened = (\<lambda>s e action.
              case Open B s e (kGenericRead K OR kFileReadData K) of
                ((status, file), s2) \<Rightarrow>
                  (status, if XFAILED K status then kDoesNotExist else action, file, s2));
            created = (\<lambda>s action.
              case CreatePath U K B V s path
                     (if \<not> is_directory then kFileAttributeNormal K
                      else kFileAttributeDirectory K) of
                None \<Rightarrow> None
              | Some (None, s2) \<Rightarrow> Some (X_STATUS_ACCESS_DENIED K, action, None, s2)
              | Some (Some e, s2) \<Rightarrow> Some (opened s2 e action))
        in (\<forall>e. found = Some e
              \<longrightarrow> \<not> (attributes B s e AND kFileAttributeDirectory K \<noteq> 0 \<and> is_non_directory))
           \<longrightarrow>
             (entry = None \<and> (disp = kOpen \<or> disp = kOverwrite)
                \<longrightarrow> result = Some (X_STATUS_NO_SUCH_FILE K, kDoesNotExist, None, s1))
           \<and> (entry \<noteq> None \<and> disp = kCreate
                \<longrightarrow> result = Some (X_STATUS_OBJECT_NAME_COLLISION K, kExists, None, s1))
           \<and> (entry = None \<and> disp \<noteq> kOpen \<and> disp \<noteq> kOverwrite
                \<longrightarrow> result = created s1 kCreated)
           \<and> (\<forall>e. entry = Some e \<and> (disp = kOpen \<or> disp = kOpenIf)
                \<longrightarrow> result = Some (opened s1 e kOpened))
           \<and> (\<forall>e. entry = Some e \<and> (disp = kOverwrite \<or> disp = kOverwriteIf)
                \<longrightarrow> result =
                      (case Delete B s1 e of
                         (False, s2) \<Rightarrow> Some (X_STATUS_ACCESS_DENIED K, a0, None, s2)
                       | (True, s2) \<Rightarrow> created s2 kOverwritten))
           \<and> (\<forall>e. entry = Some e \<and> disp = kSuperscede
                \<longrightarrow> result =
                      (case Delete B s1 e of
                         (False, s2) \<Rightarrow> Some (X_STATUS_ACCESS_DENIED K, a0, None, s2)
                       | (True, s2) \<Rightarrow> created s2 kSuperseded)))"
proof -
  let ?ro = "kGenericRead K OR kFileReadData K"
  note old = OpenFile_fixed_access [OF wants lookup checked read_only]
  have perm: "OpenFile_permissions K B s1 parent_entry entry (cleanup_access K desired_access)
      = ?ro"
    using wants read_only by (rule OpenFile_permissions_downgrade)
  have table: "(entry = None \<and> (disp = kOpen \<or> disp = kOverwrite)
                \<longrightarrow> OpenFile U K B V s root_entry path disp desired_access is_directory
                       is_non_directory a0
                    = Some (X_STATUS_NO_SUCH_FILE K, kDoesNotExist, None, s1))
           \<and> (entry \<noteq> None \<and> disp = kCreate
                \<longrightarrow> OpenFile U K B V s root_entry path disp desired_access is_directory
                       is_non_directory a0
                    = Some (X_STATUS_OBJECT_NAME_COLLISION K, kExists, None, s1))
           \<and> (entry = None \<and> disp \<noteq> kOpen \<and> disp \<noteq> kOverwrite
                \<longrightarrow> OpenFile U K B V s root_entry path disp desired_access is_directory
                       is_non_directory a0
                    = OpenFile_create U K B V s1 path is_directory ?ro kCreated)
           \<and> (\<forall>e. entry = Some e \<and> (disp = kOpen \<or> disp = kOpenIf)
                \<longrightarrow> OpenFile U K B V s root_entry path disp desired_access is_directory
                       is_non_directory a0
                    = Some (OpenFile_open K B s1 e ?ro kOpened))
           \<and> (\<forall>e. entry = Some e \<and> (disp = kOverwrite \<or> disp = kOverwriteIf)
                \<longrightarrow> OpenFile U K B V s root_entry path disp desired_access is_directory
                       is_non_directory a0 =
                      (case Delete B s1 e of
                         (False, s2) \<Rightarrow> Some (X_STATUS_ACCESS_DENIED K, a0, None, s2)
                       | (True, s2) \<Rightarrow>
                           OpenFile_create U K B V s2 path is_directory ?ro kOverwritten))
           \<and> (\<forall>e. entry = Some e \<and> disp = kSuperscede
                \<longrightarrow> OpenFile U K B V s root_entry path disp desired_access is_directory
                       is_non_directory a0 =
                      (case Delete B s1 e of
                         (False, s2) \<Rightarrow> Some (X_STATUS_ACCESS_DENIED K, a0, None, s2)
                       | (True, s2) \<Rightarrow>
                           OpenFile_create U K B V s2 path is_directory ?ro kSuperseded))"
    if ok: "\<forall>e. found = Some e
        \<longrightarrow> \<not> (attributes B s e AND kFileAttributeDirectory K \<noteq> 0 \<and> is_non_directory)"
  proof -
    note r = OpenFile_checked [OF lookup ok checked]
    have row1: "entry = None \<and> (disp = kOpen \<or> disp = kOverwrite)
        \<longrightarrow> OpenFile U K B V s root_entry path disp desired_access is_directory
               is_non_directory a0
            = Some (X_STATUS_NO_SUCH_FILE K, kDoesNotExist, None, s1)"
      unfolding r by (auto simp: OpenFile_dispose_must_exist)
    have row2: "entry \<noteq> None \<and> disp = kCreate
        \<longrightarrow> OpenFile U K B V s root_entry path disp desired_access is_directory
               is_non_directory a0
            = Some (X_STATUS_OBJECT_NAME_COLLISION K, kExists, None, s1)"
      unfolding r by (auto simp: OpenFile_dispose_collision)
    have row3: "entry = None \<and> disp \<noteq> kOpen \<and> disp \<noteq> kOverwrite
        \<longrightarrow> OpenFile U K B V s root_entry path disp desired_access is_directory
               is_non_directory a0
            = OpenFile_create U K B V s1 path is_directory ?ro kCreated"
      unfolding r using perm by (auto simp: OpenFile_dispose_absent)
    have row4: "\<forall>e. entry = Some e \<and> (disp = kOpen \<or> disp = kOpenIf)
        \<longrightarrow> OpenFile U K B V s root_entry path disp desired_access is_directory
               is_non_directory a0
            = Some (OpenFile_open K B s1 e ?ro kOpened)"
      unfolding r using perm by (auto simp: OpenFile_dispose_open)
    have row5: "\<forall>e. entry = Some e \<and> (disp = kOverwrite \<or> disp = kOverwriteIf)
        \<longrightarrow> OpenFile U K B V s root_entry path disp desired_access is_directory
               is_non_directory a0 =
              (case Delete B s1 e of
                 (False, s2) \<Rightarrow> Some (X_STATUS_ACCESS_DENIED K, a0, None, s2)
               | (True, s2) \<Rightarrow>
                   OpenFile_create U K B V s2 path is_directory ?ro kOverwritten)"
      unfolding r using perm
      by (auto simp: OpenFile_dispose_overwrite cong: prod.case_cong bool.case_cong)
    have row6: "\<forall>e. entry = Some e \<and> disp = kSuperscede
        \<longrightarrow> OpenFile U K B V s root_entry path disp desired_access is_directory
               is_non_directory a0 =
              (case Delete B s1 e of
                 (False, s2) \<Rightarrow> Some (X_STATUS_ACCESS_DENIED K, a0, None, s2)
               | (True, s2) \<Rightarrow>
                   OpenFile_create U K B V s2 path is_directory ?ro kSuperseded)"
      unfolding r using perm
      by (auto simp: OpenFile_dispose_supersede cong: prod.case_cong bool.case_cong)
    from row1 row2 row3 row4 row5 row6 show ?thesis
      by (intro conjI)
  qed
  have expand: "OpenFile_create U K B V s' path is_directory ?ro action =
      (case CreatePath U K B V s' path
              (if \<not> is_directory then kFileAttributeNormal K else kFileAttributeDirectory K) of
         None \<Rightarrow> None
       | Some (None, s2) \<Rightarrow> Some (X_STATUS_ACCESS_DENIED K, action, None, s2)
       | Some (Some e, s2) \<Rightarrow>
           Some (case Open B s2 e ?ro of
                   ((status, file), s3) \<Rightarrow>
                     (status, if XFAILED K status then kDoesNotExist else action, file, s3)))"
    "OpenFile_open K B s' e ?ro action =
      (case Open B s' e ?ro of
         ((status, file), s3) \<Rightarrow>
           (status, if XFAILED K status then kDoesNotExist else action, file, s3))"
    for s' e action
    by (simp_all add: OpenFile_create_def OpenFile_open_def
        cong: option.case_cong prod.case_cong)
  from old table show ?thesis
    unfolding Let_def expand by blast
qed

text \<open>
  The theorem at the sample world, with generic write access requested for the
  read-only file \<open>d:\ro\<close>: with disposition OpenIf the file is open with the access
  \<open>0x80000001\<close>; on the device that deletes read-only entries, with disposition
  Supersede the file is deleted, created again and open with that access.
\<close>

theorem OpenFile_read_only_downgrade_witness:
  "cleanup_access sample_constants 0x40000000 AND kFileWriteData sample_constants \<noteq> 0
   \<and> OpenFile_lookup sample_utf8 sample_ops sample_vfs sample_state None
        (''d:'' @ CHR 0x5C # ''ro'')
      = Some (Some (Some [], Some (CHR 0x5C # ''ro'')))
   \<and> is_read_only sample_ops sample_state (CHR 0x5C # ''ro'')
   \<and> OpenFile sample_utf8 sample_constants sample_ops sample_vfs sample_state None
        (''d:'' @ CHR 0x5C # ''ro'') kOpenIf 0x40000000 False False kExists
      = Some (0, kOpened, Some 0x80000001, sample_state)
   \<and> OpenFile sample_utf8 sample_constants lenient_ops sample_vfs sample_state None
        (''d:'' @ CHR 0x5C # ''ro'') kSuperscede 0x40000000 False False kExists
      = Some (0, kSuperseded, Some 0x80000001,
          sample_state\<lparr>entries :=
            [(CHR 0x5C # ''dir'', 0x10), (CHR 0x5C # ''a'', 0x80),
             (CHR 0x5C # ''busy'', 0x80), (CHR 0x5C # ''ro'', 0x80)]\<rparr>)"
proof -
  let ?p = "''d:'' @ CHR 0x5C # ''ro''" and ?e = "CHR 0x5C # ''ro''"
  have wants: "cleanup_access sample_constants 0x40000000 AND kFileWriteData sample_constants \<noteq> 0"
    by code_simp
  then have wants': "cleanup_access sample_constants 0x40000000
        AND kFileWriteData sample_constants \<noteq> 0
      \<or> cleanup_access sample_constants 0x40000000 AND kFileAppendData sample_constants \<noteq> 0"
    by (rule disjI1)
  have lookup: "OpenFile_lookup sample_utf8 sample_ops sample_vfs sample_state None ?p
      = Some (Some (Some [], Some ?e))"
    by code_simp
  have checked: "(case Some ?e of None \<Rightarrow> (None, sample_state)
      | Some e \<Rightarrow> OpenFile_uncache sample_ops sample_state (Some []) e) = (Some ?e, sample_state)"
    by (simp add: OpenFile_uncache_def sample_ops_def)
  have ro: "is_read_only sample_ops sample_state ?e"
    by code_simp
  then have read_only: "(\<exists>p. Some [] = Some p \<and> is_read_only sample_ops sample_state p)
      \<or> (\<exists>e. Some ?e = Some e \<and> is_read_only sample_ops sample_state e)"
    by blast
  have isfile: "\<not> (attributes sample_ops sample_state ?e
      AND kFileAttributeDirectory sample_constants \<noteq> 0 \<and> False)"
    by simp
  have opened: "(case Open sample_ops sample_state ?e
        (kGenericRead sample_constants OR kFileReadData sample_constants) of
      ((status, file), s2) \<Rightarrow>
        (status, if XFAILED sample_constants status then kDoesNotExist else kOpened, file, s2))
      = (0, kOpened, Some 0x80000001, sample_state)"
    by code_simp
  from OpenFile_read_only_downgrade [OF wants' lookup checked read_only,
      where disp = kOpenIf and is_non_directory = False and is_directory = False
        and ?a0.0 = kExists, THEN conjunct2, THEN conjunct1, rule_format, of ?e] isfile
  have first: "OpenFile sample_utf8 sample_constants sample_ops sample_vfs sample_state None
        ?p kOpenIf 0x40000000 False False kExists
      = Some (0, kOpened, Some 0x80000001, sample_state)"
    unfolding opened by blast
  have lookup': "OpenFile_lookup sample_utf8 lenient_ops sample_vfs sample_state None ?p
      = Some (Some (Some [], Some ?e))"
    by code_simp
  have checked': "(case Some ?e of None \<Rightarrow> (None, sample_state)
      | Some e \<Rightarrow> OpenFile_uncache lenient_ops sample_state (Some []) e)
      = (Some ?e, sample_state)"
    by (simp add: OpenFile_uncache_def lenient_ops_def sample_ops_def)
  have "is_read_only lenient_ops sample_state ?e"
    by code_simp
  then have read_only': "(\<exists>p. Some [] = Some p \<and> is_read_only lenient_ops sample_state p)
      \<or> (\<exists>e. Some ?e = Some e \<and> is_read_only lenient_ops sample_state e)"
    by blast
  have isfile': "\<forall>e. Some ?e = Some e \<longrightarrow> \<not> (attributes lenient_ops sample_state e
      AND kFileAttributeDirectory sample_constants \<noteq> 0 \<and> False)"
    by simp
  have replaced: "(case Delete lenient_ops sample_state ?e of
        (False, s2) \<Rightarrow> Some (X_STATUS_ACCESS_DENIED sample_constants, kExists, None, s2)
      | (True, s2) \<Rightarrow>
          (case CreatePath sample_utf8 sample_constants lenient_ops sample_vfs s2 ?p
                  (if \<not> False then kFileAttributeNormal sample_constants
                   else kFileAttributeDirectory sample_constants) of
             None \<Rightarrow> None
           | Some (None, s3) \<Rightarrow>
               Some (X_STATUS_ACCESS_DENIED sample_constants, kSuperseded, None, s3)
           | Some (Some e, s3) \<Rightarrow>
               Some (case Open lenient_ops s3 e
                       (kGenericRead sample_constants OR kFileReadData sample_constants) of
                       ((status, file), s4) \<Rightarrow>
                         (status, if XFAILED sample_constants status then kDoesNotExist
                                  else kSuperseded, file, s4))))
      = Some (0, kSuperseded, Some 0x80000001,
          sample_state\<lparr>entries :=
            [(CHR 0x5C # ''dir'', 0x10), (CHR 0x5C # ''a'', 0x80),
             (CHR 0x5C # ''busy'', 0x80), (CHR 0x5C # ''ro'', 0x80)]\<rparr>)"
    by code_simp
  note table = OpenFile_read_only_downgrade [OF wants' lookup' checked' read_only',
      where disp = kSuperscede and is_non_directory = False and is_directory = False
        and ?a0.0 = kExists, THEN conjunct2, THEN conjunct2, unfolded Let_def,
      THEN mp, OF isfile']
  have "OpenFile sample_utf8 sample_constants lenient_ops sample_vfs sample_state None
        ?p kSuperscede 0x40000000 False False kExists
      = (case Delete lenient_ops sample_state ?e of
        (False, s2) \<Rightarrow> Some (X_STATUS_ACCESS_DENIED sample_constants, kExists, None, s2)
      | (True, s2) \<Rightarrow>
          (case CreatePath sample_utf8 sample_constants lenient_ops sample_vfs s2 ?p
                  (if \<not> False then kFileAttributeNormal sample_constants
                   else kFileAttributeDirectory sample_constants) of
             None \<Rightarrow> None
           | Some (None, s3) \<Rightarrow>
               Some (X_STATUS_ACCESS_DENIED sample_constants, kSuperseded, None, s3)
           | Some (Some e, s3) \<Rightarrow>
               Some (case Open lenient_ops s3 e
                       (kGenericRead sample_constants OR kFileReadData sample_constants) of
                       ((status, file), s4) \<Rightarrow>
                         (status, if XFAILED sample_constants status then kDoesNotExist
                                  else kSuperseded, file, s4))))"
    by (rule table [THEN conjunct2, THEN conjunct2, THEN conjunct2, THEN conjunct2,
          THEN conjunct2, THEN spec, THEN mp]) (rule conjI; rule refl)
  then have second: "OpenFile sample_utf8 sample_constants lenient_ops sample_vfs sample_state
        None ?p kSuperscede 0x40000000 False False kExists
      = Some (0, kSuperseded, Some 0x80000001,
          sample_state\<lparr>entries :=
            [(CHR 0x5C # ''dir'', 0x10), (CHR 0x5C # ''a'', 0x80),
             (CHR 0x5C # ''busy'', 0x80), (CHR 0x5C # ''ro'', 0x80)]\<rparr>)"
    by (simp only: replaced)
  from wants lookup ro first second show ?thesis
    by (intro conjI)
qed


subsection \<open>Extraction\<close>

lemma ExtractContentFile_mapped_done: "ExtractContentFile_mapped H h d 0 = Some h"
  by (subst ExtractContentFile_mapped.simps) simp

lemma ExtractContentFile_mapped_once:
  "ExtractContentFile_mapped H h d 0x400000 = Some (fwrite H h d 4194304)"
  by (subst ExtractContentFile_mapped.simps)
    (simp add: write_buffer_size_def ExtractContentFile_mapped_done)

lemma ExtractContentFile_sync_done: "ExtractContentFile_sync H e h d 0 offset p = Some (h, p)"
  by (subst ExtractContentFile_sync.simps) simp

text \<open>
  When the loop over synchronous reads returns, the progress has grown by the size
  it started with: every read is subtracted from the one and added to the other.
\<close>

lemma ExtractContentFile_sync_progress:
  assumes "ExtractContentFile_sync H e h d remaining offset p = Some res"
  shows "snd res = p + remaining"
proof (rule ExtractContentFile_sync.raw_induct
    [where P = "\<lambda>H e h d remaining offset p res. snd res = p + remaining", OF _ assms])
  fix loop and H :: "'a host_ops" and e h d and remaining offset p :: "64 word" and res
  assume IH: "\<And>H e h d remaining offset p res.
      loop H e h d remaining offset p = Some res \<Longrightarrow> snd res = p + remaining"
    and body: "(if remaining > 0
      then loop H e (fwrite H h d (unat (entry_ReadSync e offset))) d
             (remaining - entry_ReadSync e offset) (offset + entry_ReadSync e offset)
             (p + entry_ReadSync e offset)
      else Some (h, p)) = Some res"
  show "snd res = p + remaining"
  proof (cases "remaining > 0")
    case True
    with body have "snd res = (p + entry_ReadSync e offset) + (remaining - entry_ReadSync e offset)"
      by (auto dest: IH)
    then show ?thesis by simp
  next
    case False
    then have "remaining = 0" by (simp add: word_gt_0)
    with body show ?thesis by auto
  qed
qed

text \<open>
  What an extraction does to the progress, by the kind of entry, when it returns
  with status 0: nothing for a directory, the size of the entry for a file that is
  read synchronously, and nothing for a file that is copied from a mapped view.
\<close>

lemma ExtractContentFile_directory_progress:
  "entry_attributes e AND kFileAttributeDirectory K \<noteq> 0
     \<Longrightarrow> ExtractContentFile H K e base_path progress to_root h = Some (st, progress', h')
     \<Longrightarrow> progress' = progress"
  by (auto simp: ExtractContentFile_def Let_def split: prod.splits)

lemma ExtractContentFile_sync_file_progress:
  "entry_attributes e AND kFileAttributeDirectory K = 0 \<Longrightarrow> \<not> entry_can_map e
     \<Longrightarrow> entry_Open e = X_STATUS_SUCCESS K
     \<Longrightarrow> ExtractContentFile H K e base_path progress to_root h = Some (0, progress', h')
     \<Longrightarrow> progress' = progress + entry_size e"
  by (auto simp: ExtractContentFile_def Let_def
      split: prod.splits bool.splits option.splits if_splits
      dest: ExtractContentFile_sync_progress)

lemma ExtractContentFile_mapped_file_progress:
  "entry_attributes e AND kFileAttributeDirectory K = 0 \<Longrightarrow> entry_can_map e
     \<Longrightarrow> ExtractContentFile H K e base_path progress to_root h = Some (st, progress', h')
     \<Longrightarrow> progress' = progress"
  by (auto simp: ExtractContentFile_def Let_def
      split: prod.splits bool.splits option.splits if_splits)

lemma small_file_sync:
  "ExtractContentFile_sync H small_file h d 5 0 p = Some (fwrite H h d 5, p + 5)"
  by (subst ExtractContentFile_sync.simps)
    (simp add: small_file_def ExtractContentFile_sync_done)

lemma sample_extract:
  "ExtractContentFile counting_host sample_constants content_root b p False h = Some (0, p, h)"
  "ExtractContentFile counting_host sample_constants refused_file b p False h
     = Some (0xC0000022, p, h)"
  "ExtractContentFile counting_host sample_constants small_file b p False h
     = Some (0, p + 5, h + 5)"
  by (simp_all add: ExtractContentFile_def content_root_def refused_file_def
      sample_constants_def small_file_sync [unfolded small_file_def] small_file_def
      counting_host_def)

text \<open>
  Claim C6 at a file that is copied through a mapped view: 4 MiB are written to the
  destination and the progress counter is still 0.
\<close>

theorem ExtractContentFile_mapped_progress:
  "ExtractContentFile counting_host sample_constants mapped_file ''out'' 0 False 0
     = Some (0, 0, 4194304)"
  by (simp add: ExtractContentFile_def mapped_file_def sample_constants_def
      ExtractContentFile_mapped_once counting_host_def)

text \<open>The walk extracts the entries in breadth-first order, one after the other.\<close>

lemma ExtractContentFiles_loop_each:
  "ExtractContentFiles_loop H K base_path queue progress h
     = extract_each H K base_path (breadth_first queue) progress h"
  by (induction H K base_path queue progress h rule: ExtractContentFiles_loop.induct)
    (simp_all split: option.splits)

lemma all_entries_unfold:
  "set (all_entries e) = insert e (\<Union>c \<in> set (entry_children e). set (all_entries c))"
  by (cases e) simp

lemma breadth_first_all:
  "set (breadth_first queue) = (\<Union>e \<in> set queue. set (all_entries e))"
proof (induction queue rule: breadth_first.induct)
  case 1
  show ?case by simp
next
  case (2 entry queue)
  have "set (breadth_first (entry # queue))
      = insert entry (set (breadth_first (queue @ entry_children entry)))"
    by simp
  also have "\<dots> = insert entry ((\<Union>e \<in> set queue. set (all_entries e))
      \<union> (\<Union>c \<in> set (entry_children entry). set (all_entries c)))"
    by (simp add: "2.IH" Un_commute)
  also have "\<dots> = (\<Union>e \<in> set (entry # queue). set (all_entries e))"
    by (simp add: all_entries_unfold [of entry] Un_commute)
  finally show ?case .
qed

text \<open>
  Claim C5, as the code has it. \<open>ExtractContentFiles\<close> extracts the entries of the
  tree in breadth-first order, each one after the other whatever status the
  extraction of the one before returned, and every entry of the tree is among them;
  when it returns, it returns success: the statuses of the entries are dropped.
\<close>

theorem ExtractContentFiles_best_effort:
  "ExtractContentFiles H K (Some root) base_path progress h
     = (case extract_each H K base_path (breadth_first [root]) progress h of
          None \<Rightarrow> None
        | Some (progress', h') \<Rightarrow> Some (X_STATUS_SUCCESS K, progress', h'))
   \<and> set (breadth_first [root]) = set (all_entries root)"
proof
  show "ExtractContentFiles H K (Some root) base_path progress h
     = (case extract_each H K base_path (breadth_first [root]) progress h of
          None \<Rightarrow> None
        | Some (progress', h') \<Rightarrow> Some (X_STATUS_SUCCESS K, progress', h'))"
    by (simp only: ExtractContentFiles_def ExtractContentFiles_loop_each option.case)
  show "set (breadth_first [root]) = set (all_entries root)"
    by (simp only: breadth_first_all) simp
qed

text \<open>
  The theorem at the sample tree: the extraction of the first file fails, the file
  after it is extracted all the same, and the walk returns success.
\<close>

theorem ExtractContentFiles_best_effort_witness:
  "breadth_first [content_root] = [content_root, refused_file, small_file]
   \<and> ExtractContentFile counting_host sample_constants refused_file ''out'' 0 False 0
       = Some (0xC0000022, 0, 0)
   \<and> ExtractContentFiles counting_host sample_constants (Some content_root) ''out'' 0 0
       = Some (0, 5, 5)"
proof -
  have bf: "breadth_first [content_root] = [content_root, refused_file, small_file]"
    by (simp add: content_root_def refused_file_def small_file_def)
  have d: "extract_to_root_default counting_host = False" "X_STATUS_SUCCESS sample_constants = 0"
    by (simp_all add: counting_host_def sample_constants_def)
  have "ExtractContentFiles counting_host sample_constants (Some content_root) ''out'' 0 0
      = Some (0, 5, 5)"
    by (simp only: ExtractContentFiles_best_effort
        [of counting_host sample_constants content_root "''out''" 0 0, THEN conjunct1] bf)
      (simp add: d sample_extract)
  with bf sample_extract(2) [of "''out''" 0 0] show ?thesis by blast
qed

text \<open>
  Claim C5, as the specification words it, fails: the extraction of the only entry
  returns the status \<open>0xC0000022\<close>, and the walk over it returns success.
\<close>

theorem ExtractContentFiles_status_counterexample:
  "ExtractContentFile counting_host sample_constants refused_file ''out'' 0
       (extract_to_root_default counting_host) 0
     = Some (0xC0000022, 0, 0)
   \<and> ExtractContentFiles counting_host sample_constants (Some refused_file) ''out'' 0 0
     = Some (0, 0, 0)"
proof -
  have d: "extract_to_root_default counting_host = False" "X_STATUS_SUCCESS sample_constants = 0"
    by (simp_all add: counting_host_def sample_constants_def)
  have c: "entry_children refused_file = []"
    by (simp add: refused_file_def)
  show ?thesis
    by (simp add: ExtractContentFiles_def d c sample_extract)
qed

end
